theory Spec2Isabelle
  imports Main "HOL-Library.Word"
begin

section \<open>Values, faults and the reader's change rows\<close>

text \<open>
  A Go \<open>interface{}\<close> value as the replicator binds it to a statement: \<open>VNil\<close> is the
  nil interface, \<open>UnsetValue\<close> is \<open>gocql.UnsetValue\<close>, \<open>Int64\<close> an \<open>int64\<close> (the TTL and the
  write timestamp), \<open>IntV\<close> and \<open>TextV\<close> column values, \<open>SliceV\<close> a \<open>[]interface{}\<close> (a tuple
  value or the elements of a set), \<open>FieldsV\<close> a \<open>map[string]interface{}\<close> (the fields of a
  UDT value), \<open>PtrV\<close> a pointer to a value. The nil value is \<open>VNil\<close>: a pointer, a
  slice or a map that a value holds is not nil.
\<close>

datatype val =
    VNil
  | UnsetValue
  | Int64 "64 word"
  | IntV int
  | TextV string
  | SliceV "val list"
  | FieldsV "(string \<times> val) list"
  | PtrV val

text \<open>
  Modelled from the spec: the declaration of \<open>scylla_cdc.OperationType\<close> and of
  its constants is not in \<open>main.go\<close>. The type is an \<open>int8\<close>; the spec names
  the kinds and gives the two sub-kinds of a range-delete bound as Inclusive (0) and
  Exclusive (1), counted from the first constant of its pair; the numbers are those of
  the \<open>cdc$operation\<close> column.
\<close>

type_synonym OperationType = "8 word"

definition PreImage :: OperationType where "PreImage = 0"

definition Update :: OperationType where "Update = 1"

definition Insert :: OperationType where "Insert = 2"

definition RowDelete :: OperationType where "RowDelete = 3"

definition PartitionDelete :: OperationType where "PartitionDelete = 4"

definition RangeDeleteStartInclusive :: OperationType where "RangeDeleteStartInclusive = 5"

definition RangeDeleteStartExclusive :: OperationType where "RangeDeleteStartExclusive = 6"

definition RangeDeleteEndInclusive :: OperationType where "RangeDeleteEndInclusive = 7"

definition RangeDeleteEndExclusive :: OperationType where "RangeDeleteEndExclusive = 8"

definition PostImage :: OperationType where "PostImage = 9"

text \<open>Every way a call can fail: an \<open>error\<close> return, or one of the panics of the code.\<close>

datatype panic =
    UnsupportedOperation OperationType
  | DeltaIndexOutOfRange nat nat
  | QueryIndexOutOfRange int nat
  | FieldIndexOutOfRange int nat
  | NilDereference string
  | TypeAssertion
  | IsNilOfNonNillable

datatype fault = Error string | Panic panic

text \<open>
  Modelled from the spec: the replicator's \<open>TypeInfo\<close> and \<open>parseType\<close> are not
  in \<open>main.go\<close>. The spec's column type is a tagged variant (scalar, list, set, map,
  UDT, tuple) with frozen-ness as an orthogonal flag; \<open>main.go\<close> reads it through
  \<open>Type()\<close>, \<open>IsFrozen()\<close>, \<open>Unfrozen()\<close> and \<open>Type().IsCollection()\<close>. The
  unfrozen UDT branch of \<open>processInsertOrUpdate\<close> sits under the collection test, so
  a UDT counts as a collection and a tuple does not.
\<close>

datatype Type = TypeNative | TypeList | TypeMap | TypeSet | TypeTuple | TypeUDT

datatype TypeInfo =
    NativeType string
  | ListType TypeInfo
  | SetType TypeInfo
  | MapType TypeInfo TypeInfo
  | TupleType "TypeInfo list"
  | UDTType string "(string \<times> TypeInfo) list"
  | FrozenType TypeInfo

fun Type_of :: "TypeInfo \<Rightarrow> Type" where
  "Type_of (NativeType _) = TypeNative"
| "Type_of (ListType _) = TypeList"
| "Type_of (SetType _) = TypeSet"
| "Type_of (MapType _ _) = TypeMap"
| "Type_of (TupleType _) = TypeTuple"
| "Type_of (UDTType _ _) = TypeUDT"
| "Type_of (FrozenType t) = Type_of t"

fun IsFrozen :: "TypeInfo \<Rightarrow> bool" where
  "IsFrozen (FrozenType _) = True"
| "IsFrozen _ = False"

fun Unfrozen :: "TypeInfo \<Rightarrow> TypeInfo" where
  "Unfrozen (FrozenType t) = Unfrozen t"
| "Unfrozen t = t"

fun IsCollection :: "Type \<Rightarrow> bool" where
  "IsCollection TypeList = True"
| "IsCollection TypeMap = True"
| "IsCollection TypeSet = True"
| "IsCollection TypeUDT = True"
| "IsCollection _ = False"

text \<open>
  Modelled from the spec: \<open>scylla_cdc.ChangeRow\<close>, its change descriptors and its
  accessors are not in \<open>main.go\<close>. A change row carries its operation kind, a TTL,
  the key and column values that are present, and per regular column one change
  descriptor: a scalar change (deleted, value), a list change (reset, appended cells as
  pairs of cell key and value, removed cell keys), a set or map change (reset, added,
  removed), a UDT change (reset, added fields by name, removed field indices). A nil
  Go value is \<open>VNil\<close>; the nil map and the nil slice of a list change are \<open>None\<close>,
  which is how the code tells a change without appended or removed cells.
\<close>

record ScalarChange =
  IsDeleted :: bool
  Value :: val

record ListChange =
  lcAppendedElements :: "(val \<times> val) list option"
  lcRemovedElements :: "val list option"
  lcIsReset :: bool

record SetChange =
  AddedElements :: val
  RemovedElements :: val
  IsReset :: bool

record UDTChange =
  AddedFields :: "(string \<times> val) list"
  RemovedFields :: "int list"
  udtIsReset :: bool

text \<open>
  A \<open>gocql.ColumnInfo\<close> of the row: its name and, when its type is a
  \<open>gocql.UDTTypeInfo\<close>, the names of the declared fields in order.
\<close>

record ColumnInfo =
  ciName :: string
  ciUDTElements :: "string list option"

record ChangeRow =
  operation :: OperationType
  ttl :: "64 word"
  data :: "string \<rightharpoonup> val"
  GetScalarChange :: "string \<Rightarrow> ScalarChange"
  GetListChange :: "string \<Rightarrow> ListChange"
  GetSetChange :: "string \<Rightarrow> SetChange"
  GetUDTChange :: "string \<Rightarrow> UDTChange"
  Columns :: "ColumnInfo list"

definition GetValue :: "ChangeRow \<Rightarrow> string \<Rightarrow> val \<times> bool" where
  "GetValue c name = (case data c name of None \<Rightarrow> (VNil, False) | Some v \<Rightarrow> (v, True))"

definition GetOperation :: "ChangeRow \<Rightarrow> OperationType" where
  "GetOperation c = operation c"

definition GetTTL :: "ChangeRow \<Rightarrow> val" where
  "GetTTL c = Int64 (ttl c)"

section \<open>The translator and its query templates\<close>

text \<open>
  A Go slice of strings: the backing array from the slice's first element on (its length
  is the capacity) and the slice's length. \<open>elems\<close> is what the program can read
  through the slice.
\<close>

record slice =
  arr :: "string list"
  len :: nat

definition elems :: "slice \<Rightarrow> string list" where
  "elems s = take (len s) (arr s)"

text \<open>
  \<open>append(s, xs...)\<close>: when the capacity suffices the new elements are written into
  the backing array that \<open>s\<close> shares, else a fresh array is allocated. The first
  component is \<open>s\<close> as it is after the call, the second the elements of the result.
\<close>

definition go_append :: "slice \<Rightarrow> string list \<Rightarrow> slice \<times> string list" where
  "go_append s xs =
     (if len s + length xs \<le> length (arr s)
      then (s\<lparr>arr := take (len s) (arr s) @ xs @ drop (len s + length xs) (arr s)\<rparr>,
            elems s @ xs)
      else (s, elems s @ xs))"

datatype Consistency = ConsistencyOne | ConsistencyQuorum | ConsistencyAll

text \<open>
  \<open>pkColumns\<close> is the one slice the code appends to after construction
  (\<open>processInsertOrUpdate\<close>), so it is kept with its backing array; the other
  slices are only read and are kept as their elements. The session handle is the
  parameter \<open>sess\<close> of the functions that execute statements.
\<close>

record DeltaReplicator =
  tableName :: string
  consistency :: Consistency
  pkColumns :: slice
  ckColumns :: "string list"
  otherColumns :: "string list"
  columnTypes :: "string \<rightharpoonup> TypeInfo"
  allColumns :: "string list"
  rowDeleteQueryStr :: string
  partitionDeleteQueryStr :: string
  rangeDeleteQueryStrs :: "string list"

text \<open>\<open>strings.Join\<close>.\<close>

fun Join :: "string list \<Rightarrow> string \<Rightarrow> string" where
  "Join [] sep = []"
| "Join [x] sep = x"
| "Join (x # y # ys) sep = x @ sep @ Join (y # ys) sep"

text \<open>
  The type assertion \<open>typ.Unfrozen().(*TupleType)\<close> stands behind the test
  \<open>typ.Type() == TypeTuple\<close>, under which it cannot fail; the last case below is
  never taken.
\<close>

definition makeBindMarkerForType :: "TypeInfo \<Rightarrow> string" where
  "makeBindMarkerForType typ =
     (if Type_of typ \<noteq> TypeTuple then ''?''
      else (case Unfrozen typ of
              TupleType elements \<Rightarrow> ''('' @ Join (map (\<lambda>_. ''?'') elements) '', '' @ '')''
            | _ \<Rightarrow> ''?''))"

text \<open>
  \<open>r.columnTypes[name]\<close> followed by a method call on the result: a column missing
  from the map gives the nil interface, and the call panics.
\<close>

definition columnType :: "DeltaReplicator \<Rightarrow> string \<Rightarrow> fault + TypeInfo" where
  "columnType r name =
     (case columnTypes r name of
        None \<Rightarrow> Inl (Panic (NilDereference name))
      | Some typ \<Rightarrow> Inr typ)"

fun makeBindMarkerAssignmentList ::
  "DeltaReplicator \<Rightarrow> string list \<Rightarrow> string list \<Rightarrow> fault + string list" where
  "makeBindMarkerAssignmentList r [] assignments = Inr assignments"
| "makeBindMarkerAssignmentList r (name # columnNames) assignments =
     (case columnType r name of
        Inl f \<Rightarrow> Inl f
      | Inr typ \<Rightarrow>
          makeBindMarkerAssignmentList r columnNames
            (assignments @ [name @ '' = '' @ makeBindMarkerForType typ]))"

definition makeBindMarkerAssignments ::
  "DeltaReplicator \<Rightarrow> string list \<Rightarrow> string \<Rightarrow> fault + string" where
  "makeBindMarkerAssignments r columnNames sep =
     (case makeBindMarkerAssignmentList r columnNames [] of
        Inl f \<Rightarrow> Inl f
      | Inr assignments \<Rightarrow> Inr (Join assignments sep))"

definition computeRowDeleteQuery :: "DeltaReplicator \<Rightarrow> fault + DeltaReplicator" where
  "computeRowDeleteQuery r =
     (let keyColumns = elems (pkColumns r) @ ckColumns r in
      case makeBindMarkerAssignments r keyColumns '' AND '' of
        Inl f \<Rightarrow> Inl f
      | Inr conds \<Rightarrow>
          Inr (r\<lparr>rowDeleteQueryStr := ''DELETE FROM '' @ tableName r @ '' WHERE '' @ conds\<rparr>))"

definition computePartitionDeleteQuery :: "DeltaReplicator \<Rightarrow> fault + DeltaReplicator" where
  "computePartitionDeleteQuery r =
     (case makeBindMarkerAssignments r (elems (pkColumns r)) '' AND '' of
        Inl f \<Rightarrow> Inl f
      | Inr conds \<Rightarrow>
          Inr (r\<lparr>partitionDeleteQueryStr :=
                   ''DELETE FROM '' @ tableName r @ '' WHERE '' @ conds\<rparr>))"

text \<open>
  The body of the inner loop of \<open>computeRangeDeleteQueries\<close> for one value of
  \<open>typ\<close>: the two operator tables are indexed by \<open>typ % 3\<close> and \<open>typ / 3\<close>.
\<close>

definition rangeDeleteQuery :: "string \<Rightarrow> string list \<Rightarrow> string \<Rightarrow> nat \<Rightarrow> string" where
  "rangeDeleteQuery prefix eqConds ckCol typ =
     (let startOp = [''>='', ''>'', ''''] ! (typ mod 3);
          endOp = [''<='', ''<'', ''''] ! (typ div 3);
          condsWithBounds = eqConds;
          condsWithBounds =
            (if startOp \<noteq> '''' then condsWithBounds @ [ckCol @ '' '' @ startOp @ '' ?'']
             else condsWithBounds);
          condsWithBounds =
            (if endOp \<noteq> '''' then condsWithBounds @ [ckCol @ '' '' @ endOp @ '' ?'']
             else condsWithBounds)
      in prefix @ Join condsWithBounds '' AND '')"

text \<open>
  The outer loop over the clustering columns; the inner loop \<open>for typ := 0; typ < 8\<close>
  appends one query per \<open>typ\<close>, in order.
\<close>

fun rangeDeleteLoop ::
  "string \<Rightarrow> string list \<Rightarrow> string list \<Rightarrow> string list \<Rightarrow> string list" where
  "rangeDeleteLoop prefix [] eqConds strs = strs"
| "rangeDeleteLoop prefix (ckCol # rest) eqConds strs =
     rangeDeleteLoop prefix rest (eqConds @ [ckCol @ '' = ?''])
       (strs @ map (rangeDeleteQuery prefix eqConds ckCol) [0..<8])"

definition computeRangeDeleteQueries :: "DeltaReplicator \<Rightarrow> fault + DeltaReplicator" where
  "computeRangeDeleteQueries r =
     (let prefix = ''DELETE FROM '' @ tableName r @ '' WHERE '' in
      case makeBindMarkerAssignmentList r (elems (pkColumns r)) [] of
        Inl f \<Rightarrow> Inl f
      | Inr eqConds \<Rightarrow>
          Inr (r\<lparr>rangeDeleteQueryStrs := rangeDeleteLoop prefix (ckColumns r) eqConds []\<rparr>))"

text \<open>
  The table metadata of the driver, with each column's type already classified: the
  specification takes the result of \<open>parseType\<close> as given.
\<close>

datatype ColumnKind =
    ColumnUnkownKind | ColumnPartitionKey | ColumnClusteringKey
  | ColumnRegular | ColumnCompact | ColumnStatic

record ColumnMetadata =
  cmKind :: ColumnKind
  cmType :: TypeInfo

record TableMetadata =
  tmKeyspace :: string
  tmName :: string
  tmColumns :: "string \<rightharpoonup> ColumnMetadata"
  tmOrderedColumns :: "string list"

text \<open>
  The first loop of \<open>NewDeltaReplicator\<close>; \<open>meta.Columns[name]\<close> is a pointer,
  nil for a name that is not in the map, and \<open>colDesc.Kind\<close> then panics.
\<close>

fun classifyColumns ::
  "TableMetadata \<Rightarrow> string list \<Rightarrow> string list \<times> string list \<times> string list \<Rightarrow>
   fault + string list \<times> string list \<times> string list" where
  "classifyColumns meta [] acc = Inr acc"
| "classifyColumns meta (name # names) (pk, ck, other) =
     (case tmColumns meta name of
        None \<Rightarrow> Inl (Panic (NilDereference name))
      | Some colDesc \<Rightarrow>
          (case cmKind colDesc of
             ColumnPartitionKey \<Rightarrow> classifyColumns meta names (pk @ [name], ck, other)
           | ColumnClusteringKey \<Rightarrow> classifyColumns meta names (pk, ck @ [name], other)
           | _ \<Rightarrow> classifyColumns meta names (pk, ck, other @ [name])))"

text \<open>
  \<open>spare\<close> is the capacity the Go runtime left behind the partition-key names when
  it grew the slice; the program does not choose it.
\<close>

definition NewDeltaReplicator ::
  "TableMetadata \<Rightarrow> Consistency \<Rightarrow> nat \<Rightarrow> fault + DeltaReplicator" where
  "NewDeltaReplicator meta cons spare =
     (case classifyColumns meta (tmOrderedColumns meta) ([], [], []) of
        Inl f \<Rightarrow> Inl f
      | Inr (pk, ck, other) \<Rightarrow>
          (let dr = \<lparr>tableName = tmKeyspace meta @ ''.'' @ tmName meta,
                     consistency = cons,
                     pkColumns = \<lparr>arr = pk @ replicate spare [], len = length pk\<rparr>,
                     ckColumns = ck,
                     otherColumns = other,
                     columnTypes = (\<lambda>colName. map_option cmType (tmColumns meta colName)),
                     allColumns = other @ pk @ ck,
                     rowDeleteQueryStr = [],
                     partitionDeleteQueryStr = [],
                     rangeDeleteQueryStrs = []\<rparr>
           in case computeRowDeleteQuery dr of
                Inl f \<Rightarrow> Inl f
              | Inr dr1 \<Rightarrow>
                  (case computePartitionDeleteQuery dr1 of
                     Inl f \<Rightarrow> Inl f
                   | Inr dr2 \<Rightarrow> computeRangeDeleteQueries dr2)))"

section \<open>Translating one change row\<close>

text \<open>One entry of a batch, or one single statement: its text and its bind values.\<close>

type_synonym entry = "string \<times> val list"

fun appendKeyValuesToBind :: "val list \<Rightarrow> string list \<Rightarrow> ChangeRow \<Rightarrow> val list" where
  "appendKeyValuesToBind vals [] c = vals"
| "appendKeyValuesToBind vals (name # names) c =
     (case GetValue c name of
        (v, ok) \<Rightarrow> appendKeyValuesToBind (vals @ [if \<not> ok then UnsetValue else v]) names c)"

text \<open>The type assertion \<open>v.([]interface{})\<close> panics on anything but a slice.\<close>

definition appendValueByType :: "val list \<Rightarrow> val \<Rightarrow> TypeInfo \<Rightarrow> fault + val list" where
  "appendValueByType vals v typ =
     (if Type_of typ = TypeTuple then
        (case v of SliceV vTup \<Rightarrow> Inr (vals @ vTup) | _ \<Rightarrow> Inl (Panic TypeAssertion))
      else Inr (vals @ [v]))"

text \<open>
  \<open>reflect.ValueOf(v).IsNil()\<close>: defined for a pointer, a slice and a map, which
  are not nil here, and a panic for a value of any other kind and for the nil interface.
\<close>

fun IsNil :: "val \<Rightarrow> fault + bool" where
  "IsNil (PtrV p) = Inr False"
| "IsNil (SliceV vs) = Inr False"
| "IsNil (FieldsV fs) = Inr False"
| "IsNil v = Inl (Panic IsNilOfNonNillable)"

text \<open>
  The branches of the loop over \<open>r.otherColumns\<close> in \<open>processInsertOrUpdate\<close>, one
  definition per branch; each gives the entries that the branch adds to the batch with
  \<open>batch.Query\<close>, in order.
\<close>

definition scalarColumnQueries ::
  "DeltaReplicator \<Rightarrow> ChangeRow \<Rightarrow> string list \<Rightarrow> string \<Rightarrow> string \<Rightarrow> TypeInfo \<Rightarrow>
   fault + entry list" where
  "scalarColumnQueries r c keyColumns pkConditions colName typ =
     (let scalarChange = GetScalarChange c colName in
      if IsDeleted scalarChange then
        Inr [(''DELETE '' @ colName @ '' FROM '' @ tableName r @ '' WHERE '' @ pkConditions,
              appendKeyValuesToBind [] keyColumns c)]
      else if Value scalarChange \<noteq> VNil then
        (case appendValueByType [GetTTL c] (Value scalarChange) typ of
           Inl f \<Rightarrow> Inl f
         | Inr vals \<Rightarrow>
             Inr [(''UPDATE '' @ tableName r @ '' USING TTL ? SET '' @ colName @ '' = '' @
                   makeBindMarkerForType typ @ '' WHERE '' @ pkConditions,
                   appendKeyValuesToBind vals keyColumns c)])
      else Inr [])"

text \<open>The loop over \<open>MapRange()\<close> of the appended cells, in the map's iteration order.\<close>

fun appendedElementQueries ::
  "string \<Rightarrow> ChangeRow \<Rightarrow> string list \<Rightarrow> TypeInfo \<Rightarrow> (val \<times> val) list \<Rightarrow> entry list \<Rightarrow>
   fault + entry list" where
  "appendedElementQueries setStr c keyColumns typ [] batch = Inr batch"
| "appendedElementQueries setStr c keyColumns typ ((k, v) # cells) batch =
     (case appendValueByType [GetTTL c, k] v typ of
        Inl f \<Rightarrow> Inl f
      | Inr vals \<Rightarrow>
          appendedElementQueries setStr c keyColumns typ cells
            (batch @ [(setStr, appendKeyValuesToBind vals keyColumns c)]))"

definition listColumnQueries ::
  "DeltaReplicator \<Rightarrow> 64 word \<Rightarrow> ChangeRow \<Rightarrow> string list \<Rightarrow> string \<Rightarrow> string \<Rightarrow> TypeInfo \<Rightarrow>
   fault + entry list" where
  "listColumnQueries r timestamp c keyColumns pkConditions colName typ =
     (let listChange = GetListChange c colName;
          batch =
            (if lcIsReset listChange then
               (let clearTimestamp = timestamp;
                    clearTimestamp =
                      (if lcAppendedElements listChange \<noteq> None then clearTimestamp - 1
                       else clearTimestamp)
                in [(''DELETE '' @ colName @ '' FROM '' @ tableName r @
                     '' USING TIMESTAMP ? WHERE '' @ pkConditions,
                     appendKeyValuesToBind [Int64 clearTimestamp] keyColumns c)])
             else [])
      in case (case lcAppendedElements listChange of
                 None \<Rightarrow> Inr batch
               | Some cells \<Rightarrow>
                   appendedElementQueries
                     (''UPDATE '' @ tableName r @ '' USING TTL ? SET '' @ colName @
                      ''[SCYLLA_TIMEUUID_LIST_INDEX(?)] = '' @ makeBindMarkerForType typ @
                      '' WHERE '' @ pkConditions)
                     c keyColumns typ cells batch) of
           Inl f \<Rightarrow> Inl f
         | Inr batch \<Rightarrow>
             (case lcRemovedElements listChange of
                None \<Rightarrow> Inr batch
              | Some rRemovedElements \<Rightarrow>
                  Inr (batch @
                       map (\<lambda>k. (''UPDATE '' @ tableName r @ '' SET '' @ colName @
                                  ''[SCYLLA_TIMEUUID_LIST_INDEX(?)] = null WHERE '' @ pkConditions,
                                  appendKeyValuesToBind [k] keyColumns c))
                         rRemovedElements)))"

text \<open>Both the set and the map branch read the change through \<open>GetSetChange\<close>.\<close>

definition setOrMapColumnQueries ::
  "DeltaReplicator \<Rightarrow> ChangeRow \<Rightarrow> string list \<Rightarrow> string \<Rightarrow> string \<Rightarrow> TypeInfo \<Rightarrow>
   entry list" where
  "setOrMapColumnQueries r c keyColumns pkConditions colName typ =
     (let (added, removed, isReset) =
            (if Type_of typ = TypeSet then
               (let setChange = GetSetChange c colName
                in (AddedElements setChange, RemovedElements setChange, IsReset setChange))
             else
               (let mapChange = GetSetChange c colName
                in (AddedElements mapChange, RemovedElements mapChange, IsReset mapChange)))
      in if isReset then
           [(''UPDATE '' @ tableName r @ '' USING TTL ? SET '' @ colName @ '' = ? WHERE '' @
             pkConditions,
             appendKeyValuesToBind [GetTTL c, added] keyColumns c)]
         else
           (if added \<noteq> VNil then
              [(''UPDATE '' @ tableName r @ '' USING TTL ? SET '' @ colName @ '' = '' @ colName @
                '' + ? WHERE '' @ pkConditions,
                appendKeyValuesToBind [GetTTL c, added] keyColumns c)]
            else []) @
           (if removed \<noteq> VNil then
              [(''UPDATE '' @ tableName r @ '' USING TTL ? SET '' @ colName @ '' = '' @ colName @
                '' - ? WHERE '' @ pkConditions,
                appendKeyValuesToBind [GetTTL c, removed] keyColumns c)]
            else []))"

text \<open>
  The search of \<open>c.Columns()\<close> for the UDT's declared fields: the first column of
  that name decides, its type must be a \<open>gocql.UDTTypeInfo\<close>; with no such column
  \<open>udtInfo\<close> stays the zero value, which has no elements.
\<close>

fun findUDTElements :: "ColumnInfo list \<Rightarrow> string \<Rightarrow> fault + string list" where
  "findUDTElements [] colName = Inr []"
| "findUDTElements (colInfo # colInfos) colName =
     (if ciName colInfo = colName then
        (case ciUDTElements colInfo of
           None \<Rightarrow> Inl (Panic TypeAssertion)
         | Some elements \<Rightarrow> Inr elements)
      else findUDTElements colInfos colName)"

text \<open>
  The loop that takes the added fields in the order of the declared fields:
  \<open>udtChange.AddedFields[el.Name]\<close> is nil for a name that is not in the map, and
  \<open>elementValues[i]\<close> stays \<open>gocql.UnsetValue\<close> unless the value is not nil and
  \<open>IsNil\<close> says so too.
\<close>

fun addedFieldValues ::
  "(string \<times> val) list \<Rightarrow> string list \<Rightarrow> val list \<Rightarrow> fault + val list" where
  "addedFieldValues added [] elementValues = Inr elementValues"
| "addedFieldValues added (el # els) elementValues =
     (let v = (case map_of added el of None \<Rightarrow> VNil | Some v \<Rightarrow> v) in
      if v \<noteq> VNil then
        (case IsNil v of
           Inl f \<Rightarrow> Inl f
         | Inr isNil \<Rightarrow>
             addedFieldValues added els (elementValues @ [if \<not> isNil then v else UnsetValue]))
      else addedFieldValues added els (elementValues @ [UnsetValue]))"

text \<open>\<open>elementValues[idx] = nil\<close> for each removed field index.\<close>

fun markRemovedFields :: "val list \<Rightarrow> int list \<Rightarrow> fault + val list" where
  "markRemovedFields elementValues [] = Inr elementValues"
| "markRemovedFields elementValues (idx # idxs) =
     (if 0 \<le> idx \<and> idx < int (length elementValues) then
        markRemovedFields (elementValues[nat idx := VNil]) idxs
      else Inl (Panic (FieldIndexOutOfRange idx (length elementValues))))"

text \<open>The last loop of the UDT branch: one statement per field that is set or removed.\<close>

fun udtFieldQueries ::
  "DeltaReplicator \<Rightarrow> ChangeRow \<Rightarrow> string list \<Rightarrow> string \<Rightarrow> string \<Rightarrow> TypeInfo \<Rightarrow>
   (string \<times> val) list \<Rightarrow> entry list \<Rightarrow> fault + entry list" where
  "udtFieldQueries r c keyColumns pkConditions colName typ [] batch = Inr batch"
| "udtFieldQueries r c keyColumns pkConditions colName typ ((el, v) # els) batch =
     (if v = UnsetValue then udtFieldQueries r c keyColumns pkConditions colName typ els batch
      else
        (let bindValue = (if v \<noteq> VNil then makeBindMarkerForType typ else ''null'');
             updateFieldStr =
               ''UPDATE '' @ tableName r @ '' USING TTL ? SET '' @ colName @ ''.'' @ el @
               '' = '' @ bindValue @ '' WHERE '' @ pkConditions
         in case (if v \<noteq> VNil then appendValueByType [GetTTL c] v typ else Inr [GetTTL c]) of
              Inl f \<Rightarrow> Inl f
            | Inr vals \<Rightarrow>
                udtFieldQueries r c keyColumns pkConditions colName typ els
                  (batch @ [(updateFieldStr, appendKeyValuesToBind vals keyColumns c)])))"

definition udtColumnQueries ::
  "DeltaReplicator \<Rightarrow> ChangeRow \<Rightarrow> string list \<Rightarrow> string \<Rightarrow> string \<Rightarrow> TypeInfo \<Rightarrow>
   fault + entry list" where
  "udtColumnQueries r c keyColumns pkConditions colName typ =
     (let udtChange = GetUDTChange c colName in
      if udtIsReset udtChange then
        (case appendValueByType [GetTTL c] (FieldsV (AddedFields udtChange)) typ of
           Inl f \<Rightarrow> Inl f
         | Inr vals \<Rightarrow>
             Inr [(''UPDATE '' @ tableName r @ '' USING TTL ? SET '' @ colName @ '' = '' @
                   makeBindMarkerForType typ @ '' WHERE '' @ pkConditions,
                   appendKeyValuesToBind vals keyColumns c)])
      else
        (case findUDTElements (Columns c) colName of
           Inl f \<Rightarrow> Inl f
         | Inr elements \<Rightarrow>
             (case addedFieldValues (AddedFields udtChange) elements [] of
                Inl f \<Rightarrow> Inl f
              | Inr elementValues \<Rightarrow>
                  (case markRemovedFields elementValues (RemovedFields udtChange) of
                     Inl f \<Rightarrow> Inl f
                   | Inr elementValues \<Rightarrow>
                       udtFieldQueries r c keyColumns pkConditions colName typ
                         (zip elements elementValues) []))))"

text \<open>The dispatch on the column's type, in the order of the \<open>if\<close> chain.\<close>

definition columnQueries ::
  "DeltaReplicator \<Rightarrow> 64 word \<Rightarrow> ChangeRow \<Rightarrow> string list \<Rightarrow> string \<Rightarrow> string \<Rightarrow>
   fault + entry list" where
  "columnQueries r timestamp c keyColumns pkConditions colName =
     (case columnType r colName of
        Inl f \<Rightarrow> Inl f
      | Inr typ \<Rightarrow>
          (let isNonFrozenCollection = (\<not> IsFrozen typ \<and> IsCollection (Type_of typ)) in
           if \<not> isNonFrozenCollection then
             scalarColumnQueries r c keyColumns pkConditions colName typ
           else if Type_of typ = TypeList then
             listColumnQueries r timestamp c keyColumns pkConditions colName typ
           else if Type_of typ = TypeSet \<or> Type_of typ = TypeMap then
             Inr (setOrMapColumnQueries r c keyColumns pkConditions colName typ)
           else if Type_of typ = TypeUDT then
             udtColumnQueries r c keyColumns pkConditions colName typ
           else Inr []))"

fun otherColumnsLoop ::
  "DeltaReplicator \<Rightarrow> 64 word \<Rightarrow> ChangeRow \<Rightarrow> string list \<Rightarrow> string \<Rightarrow> string list \<Rightarrow>
   entry list \<Rightarrow> fault + entry list" where
  "otherColumnsLoop r timestamp c keyColumns pkConditions [] batch = Inr batch"
| "otherColumnsLoop r timestamp c keyColumns pkConditions (colName # colNames) batch =
     (case columnQueries r timestamp c keyColumns pkConditions colName of
        Inl f \<Rightarrow> Inl f
      | Inr queries \<Rightarrow>
          otherColumnsLoop r timestamp c keyColumns pkConditions colNames (batch @ queries))"

text \<open>The bind markers of the row-marker insert, one per key column.\<close>

fun keyBindMarkers :: "DeltaReplicator \<Rightarrow> string list \<Rightarrow> string list \<Rightarrow> fault + string list" where
  "keyBindMarkers r [] bindMarkers = Inr bindMarkers"
| "keyBindMarkers r (columnName # columnNames) bindMarkers =
     (case columnType r columnName of
        Inl f \<Rightarrow> Inl f
      | Inr typ \<Rightarrow> keyBindMarkers r columnNames (bindMarkers @ [makeBindMarkerForType typ]))"

definition insertMarkerQueries ::
  "DeltaReplicator \<Rightarrow> bool \<Rightarrow> ChangeRow \<Rightarrow> string list \<Rightarrow> fault + entry list" where
  "insertMarkerQueries r isInsert c keyColumns =
     (if isInsert then
        (case keyBindMarkers r keyColumns [] of
           Inl f \<Rightarrow> Inl f
         | Inr bindMarkers \<Rightarrow>
             Inr [(''INSERT INTO '' @ tableName r @ '' ('' @ Join keyColumns '', '' @
                   '') VALUES ('' @ Join bindMarkers '', '' @ '') USING TTL ?'',
                   appendKeyValuesToBind [] keyColumns c @ [GetTTL c])])
      else Inr [])"

text \<open>
  \<open>processInsertOrUpdate\<close> up to the execution of the batch. \<open>keyColumns\<close> is
  \<open>append(r.pkColumns, r.ckColumns...)\<close>, which may write into the backing array of
  \<open>r.pkColumns\<close>; the translator is returned as it is afterwards. The printing
  under \<open>debugQueries\<close> is left out here and in the delete functions.
\<close>

definition buildBatch ::
  "DeltaReplicator \<Rightarrow> 64 word \<Rightarrow> bool \<Rightarrow> ChangeRow \<Rightarrow>
   DeltaReplicator \<times> (fault + entry list)" where
  "buildBatch r0 timestamp isInsert c =
     (case go_append (pkColumns r0) (ckColumns r0) of
        (pk, keyColumns) \<Rightarrow>
          (let r = r0\<lparr>pkColumns := pk\<rparr> in
           (r,
            case insertMarkerQueries r isInsert c keyColumns of
              Inl f \<Rightarrow> Inl f
            | Inr batch \<Rightarrow>
                (case makeBindMarkerAssignments r keyColumns '' AND '' of
                   Inl f \<Rightarrow> Inl f
                 | Inr pkConditions \<Rightarrow>
                     otherColumnsLoop r timestamp c keyColumns pkConditions
                       (otherColumns r) batch))))"

section \<open>Executing statements\<close>

text \<open>
  What the translator sends to the destination session: an unlogged batch
  (\<open>ExecuteBatch\<close>) or one idempotent statement (\<open>Query(\<dots>).Exec()\<close>), with the
  consistency level and the write timestamp. The session is a parameter: given what was
  executed before and the next action it reports an error or none.
\<close>

datatype action =
    ExecuteBatch "entry list" Consistency "64 word"
  | ExecQuery string "val list" Consistency "64 word"

type_synonym session = "action list \<Rightarrow> action \<Rightarrow> string option"

text \<open>
  The outcome of a call: \<open>None\<close> is the nil error; with it come the translator and
  the list of the actions executed so far.
\<close>

type_synonym outcome = "fault option \<times> DeltaReplicator \<times> action list"

definition execute ::
  "DeltaReplicator \<Rightarrow> session \<Rightarrow> action list \<Rightarrow> action \<Rightarrow> outcome" where
  "execute r sess log a = (map_option Error (sess log a), r, log @ [a])"

definition processInsertOrUpdate ::
  "DeltaReplicator \<Rightarrow> session \<Rightarrow> action list \<Rightarrow> 64 word \<Rightarrow> bool \<Rightarrow> ChangeRow \<Rightarrow> outcome" where
  "processInsertOrUpdate r0 sess log timestamp isInsert c =
     (case buildBatch r0 timestamp isInsert c of
        (r, Inl f) \<Rightarrow> (Some f, r, log)
      | (r, Inr batch) \<Rightarrow> execute r sess log (ExecuteBatch batch (consistency r) timestamp))"

definition processUpdate ::
  "DeltaReplicator \<Rightarrow> session \<Rightarrow> action list \<Rightarrow> 64 word \<Rightarrow> ChangeRow \<Rightarrow> outcome" where
  "processUpdate r sess log timestamp c = processInsertOrUpdate r sess log timestamp False c"

definition processInsert ::
  "DeltaReplicator \<Rightarrow> session \<Rightarrow> action list \<Rightarrow> 64 word \<Rightarrow> ChangeRow \<Rightarrow> outcome" where
  "processInsert r sess log timestamp c = processInsertOrUpdate r sess log timestamp True c"

definition processRowDelete ::
  "DeltaReplicator \<Rightarrow> session \<Rightarrow> action list \<Rightarrow> 64 word \<Rightarrow> ChangeRow \<Rightarrow> outcome" where
  "processRowDelete r sess log timestamp c =
     (let vals = appendKeyValuesToBind [] (elems (pkColumns r)) c;
          vals = appendKeyValuesToBind vals (ckColumns r) c
      in execute r sess log (ExecQuery (rowDeleteQueryStr r) vals (consistency r) timestamp))"

definition processPartitionDelete ::
  "DeltaReplicator \<Rightarrow> session \<Rightarrow> action list \<Rightarrow> 64 word \<Rightarrow> ChangeRow \<Rightarrow> outcome" where
  "processPartitionDelete r sess log timestamp c =
     (let vals = appendKeyValuesToBind [] (elems (pkColumns r)) c
      in execute r sess log
           (ExecQuery (partitionDeleteQueryStr r) vals (consistency r) timestamp))"

section \<open>The range-bound resolver\<close>

text \<open>The variables of the loop of \<open>processRangeDelete\<close> over the clustering columns.\<close>

record rangeScan =
  vals :: "val list"
  prevRight :: val
  hasLeft :: bool
  hasRight :: bool
  baseIdx :: int

text \<open>
  The loop, with \<open>i\<close> the index of \<open>ckCol\<close>; each \<open>break\<close> returns the state, the
  \<open>continue\<close> goes on with the next column.
\<close>

fun scanClusteringColumns ::
  "ChangeRow \<Rightarrow> ChangeRow \<Rightarrow> string list \<Rightarrow> int \<Rightarrow> rangeScan \<Rightarrow> rangeScan" where
  "scanClusteringColumns start en [] i st = st"
| "scanClusteringColumns start en (ckCol # ckCols) i st =
     (case GetValue start ckCol of
        (left, hasL) \<Rightarrow>
          (case GetValue en ckCol of
             (right, hasR) \<Rightarrow>
               (if hasL then
                  (if hasR then
                     scanClusteringColumns start en ckCols (i + 1)
                       (st\<lparr>prevRight := right, vals := vals st @ [left],
                           hasLeft := True, hasRight := True\<rparr>)
                   else
                     st\<lparr>vals := vals st @ [left], baseIdx := i,
                        hasLeft := True, hasRight := False\<rparr>)
                else
                  (if hasR then
                     st\<lparr>vals := vals st @ [right], baseIdx := i,
                        hasLeft := False, hasRight := True\<rparr>
                   else
                     st\<lparr>vals := vals st @ [prevRight st], hasLeft := True,
                        hasRight := True, baseIdx := i - 1\<rparr>))))"

text \<open>
  What the resolver settles before the statement is executed: the depth, the two
  offsets, the index into the template table and the bind values.
\<close>

record resolution =
  depth :: int
  leftOff :: int
  rightOff :: int
  queryIdx :: int
  bindVals :: "val list"

definition resolveRange :: "DeltaReplicator \<Rightarrow> ChangeRow \<Rightarrow> ChangeRow \<Rightarrow> resolution" where
  "resolveRange r start en =
     (let vals0 = appendKeyValuesToBind [] (elems (pkColumns r)) start;
          st = scanClusteringColumns start en (ckColumns r) 0
                 \<lparr>vals = vals0, prevRight = VNil, hasLeft = False, hasRight = False,
                  baseIdx = - 1\<rparr>;
          st = (if baseIdx st = - 1
                then st\<lparr>vals := vals st @ [prevRight st],
                        baseIdx := int (length (ckColumns r)) - 1\<rparr>
                else st);
          leftOff = (if hasLeft st
                     then sint (GetOperation start - RangeDeleteStartInclusive) else 2);
          rightOff = (if hasRight st
                      then sint (GetOperation en - RangeDeleteEndInclusive) else 2)
      in \<lparr>depth = baseIdx st, leftOff = leftOff, rightOff = rightOff,
          queryIdx = 8 * baseIdx st + leftOff + 3 * rightOff, bindVals = vals st\<rparr>)"

text \<open>
  \<open>r.rangeDeleteQueryStrs[queryIdx]\<close> panics when the index is outside the table.
\<close>

definition processRangeDelete ::
  "DeltaReplicator \<Rightarrow> session \<Rightarrow> action list \<Rightarrow> 64 word \<Rightarrow> ChangeRow \<Rightarrow> ChangeRow \<Rightarrow>
   outcome" where
  "processRangeDelete r sess log timestamp start en =
     (let res = resolveRange r start en in
      if 0 \<le> queryIdx res \<and> queryIdx res < int (length (rangeDeleteQueryStrs r)) then
        execute r sess log
          (ExecQuery (rangeDeleteQueryStrs r ! nat (queryIdx res)) (bindVals res)
             (consistency r) timestamp)
      else
        (Some (Panic (QueryIndexOutOfRange (queryIdx res) (length (rangeDeleteQueryStrs r)))),
         r, log))"

section \<open>Consuming a change\<close>

record Change =
  CassandraTimestamp :: "64 word"
  Delta :: "ChangeRow list"

text \<open>
  The loop of \<open>Consume\<close> from position \<open>pos\<close> on. \<open>c.Delta[pos+1]\<close> panics when
  \<open>pos + 1\<close> is not an index of the delta.
\<close>

function consumeFrom ::
  "DeltaReplicator \<Rightarrow> session \<Rightarrow> action list \<Rightarrow> 64 word \<Rightarrow> ChangeRow list \<Rightarrow> nat \<Rightarrow>
   outcome" where
  "consumeFrom r sess log timestamp delta pos =
     (if pos < length delta then
        (let change = delta ! pos; op = GetOperation change in
         if op = Update then
           (case processUpdate r sess log timestamp change of
              (err, r', log') \<Rightarrow>
                if err \<noteq> None then (err, r', log')
                else consumeFrom r' sess log' timestamp delta (pos + 1))
         else if op = Insert then
           (case processInsert r sess log timestamp change of
              (err, r', log') \<Rightarrow>
                if err \<noteq> None then (err, r', log')
                else consumeFrom r' sess log' timestamp delta (pos + 1))
         else if op = RowDelete then
           (case processRowDelete r sess log timestamp change of
              (err, r', log') \<Rightarrow>
                if err \<noteq> None then (err, r', log')
                else consumeFrom r' sess log' timestamp delta (pos + 1))
         else if op = PartitionDelete then
           (case processPartitionDelete r sess log timestamp change of
              (err, r', log') \<Rightarrow>
                if err \<noteq> None then (err, r', log')
                else consumeFrom r' sess log' timestamp delta (pos + 1))
         else if op = RangeDeleteStartInclusive \<or> op = RangeDeleteStartExclusive then
           (if pos + 1 < length delta then
              (case processRangeDelete r sess log timestamp change (delta ! (pos + 1)) of
                 (err, r', log') \<Rightarrow>
                   if err \<noteq> None then (err, r', log')
                   else consumeFrom r' sess log' timestamp delta (pos + 2))
            else (Some (Panic (DeltaIndexOutOfRange (pos + 1) (length delta))), r, log))
         else (Some (Panic (UnsupportedOperation op)), r, log))
      else (None, r, log))"
  by pat_completeness auto
termination
  by (relation "measure (\<lambda>(r, sess, log, timestamp, delta, pos). length delta - pos)") auto

definition Consume :: "DeltaReplicator \<Rightarrow> session \<Rightarrow> action list \<Rightarrow> Change \<Rightarrow> outcome" where
  "Consume r sess log c = consumeFrom r sess log (CassandraTimestamp c) (Delta c) 0"

text \<open>
  A sequence of \<open>Consume\<close> calls on one translator; the caller goes on after an error.
\<close>

fun consumeAll ::
  "DeltaReplicator \<Rightarrow> session \<Rightarrow> action list \<Rightarrow> Change list \<Rightarrow> DeltaReplicator \<times> action list" where
  "consumeAll r sess log [] = (r, log)"
| "consumeAll r sess log (c # cs) =
     (case Consume r sess log c of (err, r', log') \<Rightarrow> consumeAll r' sess log' cs)"

section \<open>The consumer factory\<close>

text \<open>
  \<open>strings.SplitN(s, ".", 2)\<close>: the text before the first dot and the text after it,
  or the whole text when it has no dot.
\<close>

fun cutAtDot :: "string \<Rightarrow> (string \<times> string) option" where
  "cutAtDot [] = None"
| "cutAtDot (ch # rest) =
     (if ch = CHR ''.'' then Some ([], rest)
      else (case cutAtDot rest of
              None \<Rightarrow> None
            | Some (before, after) \<Rightarrow> Some (ch # before, after)))"

definition SplitN2 :: "string \<Rightarrow> string list" where
  "SplitN2 s = (case cutAtDot s of None \<Rightarrow> [s] | Some (before, after) \<Rightarrow> [before, after])"

text \<open>
  The destination session as the factory uses it: the catalog lookup
  \<open>KeyspaceMetadata\<close>, which returns an error or the keyspace's tables, and
  \<open>Close\<close>. The calls made are recorded in order.
\<close>

record KeyspaceMetadata =
  Tables :: "string \<rightharpoonup> TableMetadata"

record replicatorFactory =
  destinationSession :: "string \<Rightarrow> string + KeyspaceMetadata"
  rfConsistency :: Consistency

datatype sessionCall = KeyspaceMetadataCall string | CloseCall

definition CreateChangeConsumer ::
  "replicatorFactory \<Rightarrow> nat \<Rightarrow> string \<Rightarrow> (fault + DeltaReplicator) \<times> sessionCall list" where
  "CreateChangeConsumer rf spare inputTableName =
     (let splitTableName = SplitN2 inputTableName in
      if length splitTableName < 2 then
        (Inl (Error (''table name is not fully qualified: '' @ inputTableName)), [])
      else
        (case destinationSession rf (splitTableName ! 0) of
           Inl err \<Rightarrow>
             (Inl (Error err), [KeyspaceMetadataCall (splitTableName ! 0), CloseCall])
         | Inr kmeta \<Rightarrow>
             (case Tables kmeta (splitTableName ! 1) of
                None \<Rightarrow>
                  (Inl (Error (''table '' @ inputTableName @ '' does not exist'')),
                   [KeyspaceMetadataCall (splitTableName ! 0), CloseCall])
              | Some tmeta \<Rightarrow>
                  (NewDeltaReplicator tmeta (rfConsistency rf) spare,
                   [KeyspaceMetadataCall (splitTableName ! 0)]))))"

section \<open>The query templates as the specification words them\<close>

text \<open>
  The range-delete template of depth \<open>d\<close> as the specification writes it:
  \<open>DELETE FROM T WHERE\<close>, the partition-key equalities, the equalities of the
  clustering columns before \<open>d\<close>, then the left and the right bound on column \<open>d\<close>
  where the kind (inclusive 0, exclusive 1, absent 2) has one; and the flat index of a
  combination.
\<close>

definition boundConds :: "string \<Rightarrow> nat \<Rightarrow> nat \<Rightarrow> string list" where
  "boundConds ckCol leftKind rightKind =
     (if leftKind = 0 then [ckCol @ '' >= ?'']
      else if leftKind = 1 then [ckCol @ '' > ?''] else []) @
     (if rightKind = 0 then [ckCol @ '' <= ?'']
      else if rightKind = 1 then [ckCol @ '' < ?''] else [])"

definition bindMarker :: "DeltaReplicator \<Rightarrow> string \<Rightarrow> string" where
  "bindMarker r name =
     (case columnTypes r name of None \<Rightarrow> ''?'' | Some typ \<Rightarrow> makeBindMarkerForType typ)"

definition equalities :: "DeltaReplicator \<Rightarrow> string list \<Rightarrow> string list" where
  "equalities r names = map (\<lambda>name. name @ '' = '' @ bindMarker r name) names"

definition rangeTemplate :: "DeltaReplicator \<Rightarrow> nat \<Rightarrow> nat \<Rightarrow> nat \<Rightarrow> string" where
  "rangeTemplate r d leftKind rightKind =
     ''DELETE FROM '' @ tableName r @ '' WHERE '' @
     Join (equalities r (elems (pkColumns r)) @
           map (\<lambda>ckCol. ckCol @ '' = ?'') (take d (ckColumns r)) @
           boundConds (ckColumns r ! d) leftKind rightKind) '' AND ''"

definition rangeIndex :: "nat \<Rightarrow> nat \<Rightarrow> nat \<Rightarrow> nat" where
  "rangeIndex d leftKind rightKind = 8 * d + leftKind + 3 * rightKind"

definition validCombo :: "nat \<Rightarrow> nat \<Rightarrow> nat \<Rightarrow> nat \<Rightarrow> bool" where
  "validCombo K d leftKind rightKind \<longleftrightarrow>
     d < K \<and> leftKind \<le> 2 \<and> rightKind \<le> 2 \<and> \<not> (leftKind = 2 \<and> rightKind = 2)"

text \<open>
  What \<open>NewDeltaReplicator\<close> establishes, in terms of the table metadata: the three
  column lists are the ordered columns filtered by kind, every ordered column has a
  type, and the three precomputed queries are the templates of the specification.
\<close>

definition kindOf :: "TableMetadata \<Rightarrow> string \<Rightarrow> ColumnKind option" where
  "kindOf meta name = map_option cmKind (tmColumns meta name)"

definition isPartitionKey :: "TableMetadata \<Rightarrow> string \<Rightarrow> bool" where
  "isPartitionKey meta name \<longleftrightarrow> kindOf meta name = Some ColumnPartitionKey"

definition isClusteringKey :: "TableMetadata \<Rightarrow> string \<Rightarrow> bool" where
  "isClusteringKey meta name \<longleftrightarrow> kindOf meta name = Some ColumnClusteringKey"

definition isOtherColumn :: "TableMetadata \<Rightarrow> string \<Rightarrow> bool" where
  "isOtherColumn meta name \<longleftrightarrow> \<not> isPartitionKey meta name \<and> \<not> isClusteringKey meta name"

definition constructed :: "TableMetadata \<Rightarrow> Consistency \<Rightarrow> DeltaReplicator \<Rightarrow> bool" where
  "constructed meta cons r \<longleftrightarrow>
     tableName r = tmKeyspace meta @ ''.'' @ tmName meta \<and>
     consistency r = cons \<and>
     elems (pkColumns r) = filter (isPartitionKey meta) (tmOrderedColumns meta) \<and>
     len (pkColumns r) \<le> length (arr (pkColumns r)) \<and>
     ckColumns r = filter (isClusteringKey meta) (tmOrderedColumns meta) \<and>
     otherColumns r = filter (isOtherColumn meta) (tmOrderedColumns meta) \<and>
     columnTypes r = (\<lambda>colName. map_option cmType (tmColumns meta colName)) \<and>
     (\<forall>name \<in> set (tmOrderedColumns meta). columnTypes r name \<noteq> None) \<and>
     rowDeleteQueryStr r =
       ''DELETE FROM '' @ tableName r @ '' WHERE '' @
       Join (equalities r (elems (pkColumns r) @ ckColumns r)) '' AND '' \<and>
     partitionDeleteQueryStr r =
       ''DELETE FROM '' @ tableName r @ '' WHERE '' @
       Join (equalities r (elems (pkColumns r))) '' AND '' \<and>
     rangeDeleteQueryStrs r =
       rangeDeleteLoop (''DELETE FROM '' @ tableName r @ '' WHERE '') (ckColumns r)
         (equalities r (elems (pkColumns r))) []"

section \<open>The resolver as the specification words it\<close>

text \<open>
  The specification's account of the range-bound resolver, for comparison with
  \<open>resolveRange\<close>: the scan stops at the first clustering column that is not present
  on both sides; the depth is that column when one side has it, the column before when
  neither has it, and the last column when the scan stops nowhere. A bound kind is absent
  (2) unless the bound is there and the event's operation says inclusive (0) or
  exclusive (1). The bind values are the partition-key values, the start values of the
  columns before the depth, then the left and the right bound where present.
\<close>

definition present :: "ChangeRow \<Rightarrow> string \<Rightarrow> bool" where
  "present c col \<longleftrightarrow> data c col \<noteq> None"

definition valueOf :: "ChangeRow \<Rightarrow> string \<Rightarrow> val" where
  "valueOf c col = (case data c col of None \<Rightarrow> VNil | Some v \<Rightarrow> v)"

definition keyValue :: "ChangeRow \<Rightarrow> string \<Rightarrow> val" where
  "keyValue c col = (case data c col of None \<Rightarrow> UnsetValue | Some v \<Rightarrow> v)"

definition bothPresent :: "ChangeRow \<Rightarrow> ChangeRow \<Rightarrow> string \<Rightarrow> bool" where
  "bothPresent start en col \<longleftrightarrow> present start col \<and> present en col"

definition firstOpen :: "ChangeRow \<Rightarrow> ChangeRow \<Rightarrow> string list \<Rightarrow> nat" where
  "firstOpen start en cks = length (takeWhile (bothPresent start en) cks)"

definition specDepth :: "ChangeRow \<Rightarrow> ChangeRow \<Rightarrow> string list \<Rightarrow> int" where
  "specDepth start en cks =
     (let i = firstOpen start en cks in
      if i = length cks then int (length cks) - 1
      else if present start (cks ! i) \<or> present en (cks ! i) then int i
      else int i - 1)"

definition specKind :: "bool \<Rightarrow> OperationType \<Rightarrow> OperationType \<Rightarrow> OperationType \<Rightarrow> int" where
  "specKind bound op inclusive exclusive =
     (if bound \<and> op = inclusive then 0 else if bound \<and> op = exclusive then 1 else 2)"

definition specLeftKind :: "ChangeRow \<Rightarrow> ChangeRow \<Rightarrow> string list \<Rightarrow> int" where
  "specLeftKind start en cks =
     specKind (present start (cks ! nat (specDepth start en cks))) (GetOperation start)
       RangeDeleteStartInclusive RangeDeleteStartExclusive"

definition specRightKind :: "ChangeRow \<Rightarrow> ChangeRow \<Rightarrow> string list \<Rightarrow> int" where
  "specRightKind start en cks =
     specKind (present en (cks ! nat (specDepth start en cks))) (GetOperation en)
       RangeDeleteEndInclusive RangeDeleteEndExclusive"

definition specBinds :: "ChangeRow \<Rightarrow> ChangeRow \<Rightarrow> string list \<Rightarrow> string list \<Rightarrow> val list" where
  "specBinds start en pks cks =
     (let d = nat (specDepth start en cks) in
      map (keyValue start) pks @
      map (valueOf start) (take d cks) @
      (if present start (cks ! d) then [valueOf start (cks ! d)] else []) @
      (if present en (cks ! d) then [valueOf en (cks ! d)] else []))"

section \<open>The statements of an insert or update as the specification words them\<close>

text \<open>
  The statements of an insert or update as the specification writes them: the key
  columns, the \<open>WHERE\<close> clause over them, their bind values, the row marker of an
  insert, and per regular column the entries it contributes to the batch, with the
  entries in front of and behind those of the column at index \<open>i\<close>.
\<close>

definition keyColumnsOf :: "DeltaReplicator \<Rightarrow> string list" where
  "keyColumnsOf r = elems (pkColumns r) @ ckColumns r"

definition whereKeys :: "DeltaReplicator \<Rightarrow> string" where
  "whereKeys r = Join (equalities r (keyColumnsOf r)) '' AND ''"

definition keyValues :: "DeltaReplicator \<Rightarrow> ChangeRow \<Rightarrow> val list" where
  "keyValues r c = map (keyValue c) (keyColumnsOf r)"

definition insertMarker :: "DeltaReplicator \<Rightarrow> ChangeRow \<Rightarrow> entry" where
  "insertMarker r c =
     (''INSERT INTO '' @ tableName r @ '' ('' @ Join (keyColumnsOf r) '', '' @
      '') VALUES ('' @ Join (map (bindMarker r) (keyColumnsOf r)) '', '' @ '') USING TTL ?'',
      keyValues r c @ [GetTTL c])"

definition columnEntries :: "DeltaReplicator \<Rightarrow> 64 word \<Rightarrow> ChangeRow \<Rightarrow> string \<Rightarrow> entry list" where
  "columnEntries r timestamp c colName =
     (case columnQueries r timestamp c (keyColumnsOf r) (whereKeys r) colName of
        Inl f \<Rightarrow> []
      | Inr queries \<Rightarrow> queries)"

definition entriesBefore :: "DeltaReplicator \<Rightarrow> 64 word \<Rightarrow> bool \<Rightarrow> ChangeRow \<Rightarrow> nat \<Rightarrow> entry list" where
  "entriesBefore r timestamp isInsert c i =
     (if isInsert then [insertMarker r c] else []) @
     concat (map (columnEntries r timestamp c) (take i (otherColumns r)))"

definition entriesAfter :: "DeltaReplicator \<Rightarrow> 64 word \<Rightarrow> ChangeRow \<Rightarrow> nat \<Rightarrow> entry list" where
  "entriesAfter r timestamp c i =
     concat (map (columnEntries r timestamp c) (drop (Suc i) (otherColumns r)))"

text \<open>The mutation statements, one per kind of change.\<close>

definition deleteColumnStmt :: "DeltaReplicator \<Rightarrow> string \<Rightarrow> string" where
  "deleteColumnStmt r col = ''DELETE '' @ col @ '' FROM '' @ tableName r @ '' WHERE '' @ whereKeys r"

definition setColumnStmt :: "DeltaReplicator \<Rightarrow> string \<Rightarrow> string" where
  "setColumnStmt r col =
     ''UPDATE '' @ tableName r @ '' USING TTL ? SET '' @ col @ '' = ? WHERE '' @ whereKeys r"

definition addToColumnStmt :: "DeltaReplicator \<Rightarrow> string \<Rightarrow> string" where
  "addToColumnStmt r col =
     ''UPDATE '' @ tableName r @ '' USING TTL ? SET '' @ col @ '' = '' @ col @ '' + ? WHERE '' @
     whereKeys r"

definition removeFromColumnStmt :: "DeltaReplicator \<Rightarrow> string \<Rightarrow> string" where
  "removeFromColumnStmt r col =
     ''UPDATE '' @ tableName r @ '' USING TTL ? SET '' @ col @ '' = '' @ col @ '' - ? WHERE '' @
     whereKeys r"

definition clearListStmt :: "DeltaReplicator \<Rightarrow> string \<Rightarrow> string" where
  "clearListStmt r col =
     ''DELETE '' @ col @ '' FROM '' @ tableName r @ '' USING TIMESTAMP ? WHERE '' @ whereKeys r"

definition appendCellStmt :: "DeltaReplicator \<Rightarrow> string \<Rightarrow> string" where
  "appendCellStmt r col =
     ''UPDATE '' @ tableName r @ '' USING TTL ? SET '' @ col @
     ''[SCYLLA_TIMEUUID_LIST_INDEX(?)] = ? WHERE '' @ whereKeys r"

definition removeCellStmt :: "DeltaReplicator \<Rightarrow> string \<Rightarrow> string" where
  "removeCellStmt r col =
     ''UPDATE '' @ tableName r @ '' SET '' @ col @
     ''[SCYLLA_TIMEUUID_LIST_INDEX(?)] = null WHERE '' @ whereKeys r"

text \<open>
  A scalar, a frozen container or a frozen UDT: the types whose value is only replaced
  or deleted as a whole. \<open>mutationStmt\<close> holds of the text of an \<open>UPDATE\<close> or a
  \<open>DELETE\<close>.
\<close>

definition scalarLike :: "TypeInfo \<Rightarrow> bool" where
  "scalarLike ty \<longleftrightarrow>
     Type_of ty = TypeNative \<or>
     (IsFrozen ty \<and> Type_of ty \<in> {TypeList, TypeSet, TypeMap, TypeUDT})"

definition mutationStmt :: "string \<Rightarrow> bool" where
  "mutationStmt s \<longleftrightarrow> take 7 s = ''UPDATE '' \<or> take 7 s = ''DELETE ''"

text \<open>
  The two conditions as the specification words them: the event contains appended cells
  for the list column, and the added or removed elements of a set or map change are
  non-empty. \<open>specClearTimestamp\<close> is the timestamp the specification gives the clear
  statement of a list reset.
\<close>

definition hasAppendedCells :: "ListChange \<Rightarrow> bool" where
  "hasAppendedCells listChange \<longleftrightarrow>
     (case lcAppendedElements listChange of None \<Rightarrow> False | Some cells \<Rightarrow> cells \<noteq> [])"

definition specClearTimestamp :: "64 word \<Rightarrow> ListChange \<Rightarrow> 64 word" where
  "specClearTimestamp timestamp listChange =
     (if hasAppendedCells listChange then timestamp - 1 else timestamp)"

fun hasElements :: "val \<Rightarrow> bool" where
  "hasElements (SliceV vs) = (vs \<noteq> [])"
| "hasElements (FieldsV fs) = (fs \<noteq> [])"
| "hasElements v = False"

section \<open>Names and the catalog\<close>

text \<open>
  A qualified name has a dot; its keyspace is the text before the first dot and its table
  the text after it. \<open>catalogTable\<close> is the metadata the destination catalog gives
  for the name, if any; \<open>isLookup\<close> picks the catalog lookups among the session calls.
\<close>

definition isQualified :: "string \<Rightarrow> bool" where
  "isQualified name \<longleftrightarrow> CHR ''.'' \<in> set name"

definition keyspaceOf :: "string \<Rightarrow> string" where
  "keyspaceOf name = takeWhile (\<lambda>ch. ch \<noteq> CHR ''.'') name"

definition tableOf :: "string \<Rightarrow> string" where
  "tableOf name = drop 1 (dropWhile (\<lambda>ch. ch \<noteq> CHR ''.'') name)"

definition catalogTable :: "replicatorFactory \<Rightarrow> string \<Rightarrow> TableMetadata option" where
  "catalogTable rf name =
     (case destinationSession rf (keyspaceOf name) of
        Inl err \<Rightarrow> None
      | Inr kmeta \<Rightarrow> Tables kmeta (tableOf name))"

definition isLookup :: "sessionCall \<Rightarrow> bool" where
  "isLookup call = (case call of KeyspaceMetadataCall ks \<Rightarrow> True | CloseCall \<Rightarrow> False)"

section \<open>Operation kinds, faults and the frame of Consume\<close>

text \<open>
  The operation kinds \<open>Consume\<close> dispatches on. \<open>startsPaired\<close> is the invariant
  of the reader: every RangeDeleteStart event is immediately followed by a
  RangeDeleteEnd event. An event is recognised when its kind is a row operation, a
  RangeDeleteStart, or a RangeDeleteEnd right after a RangeDeleteStart.
\<close>

definition isRangeStart :: "OperationType \<Rightarrow> bool" where
  "isRangeStart op \<longleftrightarrow> op = RangeDeleteStartInclusive \<or> op = RangeDeleteStartExclusive"

definition isRangeEnd :: "OperationType \<Rightarrow> bool" where
  "isRangeEnd op \<longleftrightarrow> op = RangeDeleteEndInclusive \<or> op = RangeDeleteEndExclusive"

definition isRowOperation :: "OperationType \<Rightarrow> bool" where
  "isRowOperation op \<longleftrightarrow> op = Update \<or> op = Insert \<or> op = RowDelete \<or> op = PartitionDelete"

fun startsPaired :: "ChangeRow list \<Rightarrow> bool" where
  "startsPaired [] = True"
| "startsPaired [c] = (\<not> isRangeStart (GetOperation c))"
| "startsPaired (c # d # rest) =
     ((isRangeStart (GetOperation c) \<longrightarrow> isRangeEnd (GetOperation d)) \<and>
      startsPaired (d # rest))"

definition recognizedAt :: "ChangeRow list \<Rightarrow> nat \<Rightarrow> bool" where
  "recognizedAt delta j \<longleftrightarrow>
     isRowOperation (GetOperation (delta ! j)) \<or>
     isRangeStart (GetOperation (delta ! j)) \<or>
     (isRangeEnd (GetOperation (delta ! j)) \<and> 0 < j \<and>
      isRangeStart (GetOperation (delta ! (j - 1))))"

text \<open>
  The pattern of every branch of the loop: return the error of the step, or go on.
  \<open>processRow\<close> is the step of the four row operations.
\<close>

definition andThen :: "outcome \<Rightarrow> (DeltaReplicator \<Rightarrow> action list \<Rightarrow> outcome) \<Rightarrow> outcome" where
  "andThen res k = (case res of (err, r', log') \<Rightarrow> if err \<noteq> None then (err, r', log') else k r' log')"

definition processRow ::
  "DeltaReplicator \<Rightarrow> session \<Rightarrow> action list \<Rightarrow> 64 word \<Rightarrow> ChangeRow \<Rightarrow> outcome" where
  "processRow r sess log timestamp change =
     (if GetOperation change = Update then processUpdate r sess log timestamp change
      else if GetOperation change = Insert then processInsert r sess log timestamp change
      else if GetOperation change = RowDelete then processRowDelete r sess log timestamp change
      else processPartitionDelete r sess log timestamp change)"

text \<open>
  The faults by origin: those of building a batch, the index \<open>pos + 1\<close> outside the
  delta, and panics as opposed to errors.
\<close>

fun buildFault :: "fault \<Rightarrow> bool" where
  "buildFault (Panic (NilDereference name)) = True"
| "buildFault (Panic TypeAssertion) = True"
| "buildFault (Panic (FieldIndexOutOfRange idx n)) = True"
| "buildFault (Panic IsNilOfNonNillable) = True"
| "buildFault f = False"

fun deltaFault :: "fault \<Rightarrow> bool" where
  "deltaFault (Panic (DeltaIndexOutOfRange idx n)) = True"
| "deltaFault f = False"

fun isPanic :: "fault \<Rightarrow> bool" where
  "isPanic (Panic p) = True"
| "isPanic (Error e) = False"

text \<open>
  Two translators with the same fields: of the partition-key slice the elements, the
  length and the capacity are compared, not the array behind the length. Two outcomes
  are the same when the error and the executed actions are equal and the translators
  have the same fields.
\<close>

definition sameTranslator :: "DeltaReplicator \<Rightarrow> DeltaReplicator \<Rightarrow> bool" where
  "sameTranslator r r' \<longleftrightarrow>
     tableName r' = tableName r \<and>
     consistency r' = consistency r \<and>
     elems (pkColumns r') = elems (pkColumns r) \<and>
     len (pkColumns r') = len (pkColumns r) \<and>
     length (arr (pkColumns r')) = length (arr (pkColumns r)) \<and>
     ckColumns r' = ckColumns r \<and>
     otherColumns r' = otherColumns r \<and>
     columnTypes r' = columnTypes r \<and>
     allColumns r' = allColumns r \<and>
     rowDeleteQueryStr r' = rowDeleteQueryStr r \<and>
     partitionDeleteQueryStr r' = partitionDeleteQueryStr r \<and>
     rangeDeleteQueryStrs r' = rangeDeleteQueryStrs r"

definition sameOutcome :: "outcome \<Rightarrow> outcome \<Rightarrow> bool" where
  "sameOutcome out out' \<longleftrightarrow>
     fst out' = fst out \<and> sameTranslator (fst (snd out)) (fst (snd out')) \<and>
     snd (snd out') = snd (snd out)"

section \<open>The example table of the specification\<close>

text \<open>
  Table \<open>ks.t\<close>: partition key \<open>id\<close>, clustering key \<open>seq\<close>, regular columns
  \<open>val\<close> (int), \<open>tags\<close> (set of text) and \<open>items\<close> (list of text).
\<close>

definition exampleMeta :: TableMetadata where
  "exampleMeta =
     \<lparr>tmKeyspace = ''ks'', tmName = ''t'',
      tmColumns =
        [''id'' \<mapsto> \<lparr>cmKind = ColumnPartitionKey, cmType = NativeType ''int''\<rparr>,
         ''seq'' \<mapsto> \<lparr>cmKind = ColumnClusteringKey, cmType = NativeType ''int''\<rparr>,
         ''val'' \<mapsto> \<lparr>cmKind = ColumnRegular, cmType = NativeType ''int''\<rparr>,
         ''tags'' \<mapsto> \<lparr>cmKind = ColumnRegular, cmType = SetType (NativeType ''text'')\<rparr>,
         ''items'' \<mapsto> \<lparr>cmKind = ColumnRegular, cmType = ListType (NativeType ''text'')\<rparr>],
      tmOrderedColumns = [''id'', ''seq'', ''val'', ''tags'', ''items'']\<rparr>"

definition exampleReplicator :: DeltaReplicator where
  "exampleReplicator =
     \<lparr>tableName = ''ks.t'',
      consistency = ConsistencyOne,
      pkColumns = \<lparr>arr = [''id''], len = 1\<rparr>,
      ckColumns = [''seq''],
      otherColumns = [''val'', ''tags'', ''items''],
      columnTypes = (\<lambda>colName. map_option cmType (tmColumns exampleMeta colName)),
      allColumns = [''val'', ''tags'', ''items'', ''id'', ''seq''],
      rowDeleteQueryStr = ''DELETE FROM ks.t WHERE id = ? AND seq = ?'',
      partitionDeleteQueryStr = ''DELETE FROM ks.t WHERE id = ?'',
      rangeDeleteQueryStrs =
        [''DELETE FROM ks.t WHERE id = ? AND seq >= ? AND seq <= ?'',
         ''DELETE FROM ks.t WHERE id = ? AND seq > ? AND seq <= ?'',
         ''DELETE FROM ks.t WHERE id = ? AND seq <= ?'',
         ''DELETE FROM ks.t WHERE id = ? AND seq >= ? AND seq < ?'',
         ''DELETE FROM ks.t WHERE id = ? AND seq > ? AND seq < ?'',
         ''DELETE FROM ks.t WHERE id = ? AND seq < ?'',
         ''DELETE FROM ks.t WHERE id = ? AND seq >= ?'',
         ''DELETE FROM ks.t WHERE id = ? AND seq > ?'']\<rparr>"

text \<open>
  A row that carries only an operation kind and key values, as the delete events do,
  and the events of the specification's scenarios.
\<close>

definition keyRow :: "OperationType \<Rightarrow> (string \<rightharpoonup> val) \<Rightarrow> ChangeRow" where
  "keyRow op d =
     \<lparr>operation = op, ttl = 0, data = d,
      GetScalarChange = (\<lambda>_. \<lparr>IsDeleted = False, Value = VNil\<rparr>),
      GetListChange =
        (\<lambda>_. \<lparr>lcAppendedElements = None, lcRemovedElements = None, lcIsReset = False\<rparr>),
      GetSetChange = (\<lambda>_. \<lparr>AddedElements = VNil, RemovedElements = VNil, IsReset = False\<rparr>),
      GetUDTChange = (\<lambda>_. \<lparr>AddedFields = [], RemovedFields = [], udtIsReset = False\<rparr>),
      Columns = []\<rparr>"

definition noScalarChange :: ScalarChange where
  "noScalarChange = \<lparr>IsDeleted = False, Value = VNil\<rparr>"

text \<open>A session on which every statement succeeds.\<close>

definition okSession :: session where
  "okSession log a = None"

definition exampleRangeStart :: ChangeRow where
  "exampleRangeStart = keyRow RangeDeleteStartInclusive [''id'' \<mapsto> IntV 1, ''seq'' \<mapsto> IntV 5]"

definition exampleRangeEnd :: ChangeRow where
  "exampleRangeEnd = keyRow RangeDeleteEndInclusive [''id'' \<mapsto> IntV 1]"

definition unboundedRangeStart :: ChangeRow where
  "unboundedRangeStart = keyRow RangeDeleteStartInclusive [''id'' \<mapsto> IntV 1]"

definition postImageRow :: ChangeRow where
  "postImageRow = keyRow PostImage [''id'' \<mapsto> IntV 1]"

definition exampleInsert :: ChangeRow where
  "exampleInsert =
     (keyRow Insert [''id'' \<mapsto> IntV 1, ''seq'' \<mapsto> IntV 1])
       \<lparr>ttl := 100,
        GetScalarChange :=
          (\<lambda>name. if name = ''val'' then \<lparr>IsDeleted = False, Value = IntV 5\<rparr>
                   else noScalarChange)\<rparr>"

definition exampleValDelete :: ChangeRow where
  "exampleValDelete =
     (keyRow Update [''id'' \<mapsto> IntV 1, ''seq'' \<mapsto> IntV 1])
       \<lparr>GetScalarChange :=
          (\<lambda>name. if name = ''val'' then \<lparr>IsDeleted = True, Value = VNil\<rparr>
                   else noScalarChange)\<rparr>"

definition exampleTagsUpdate :: ChangeRow where
  "exampleTagsUpdate =
     (keyRow Update [''id'' \<mapsto> IntV 1, ''seq'' \<mapsto> IntV 1])
       \<lparr>GetSetChange :=
          (\<lambda>name. if name = ''tags''
                   then \<lparr>AddedElements = SliceV [TextV ''a''],
                         RemovedElements = SliceV [TextV ''b''], IsReset = False\<rparr>
                   else \<lparr>AddedElements = VNil, RemovedElements = VNil, IsReset = False\<rparr>)\<rparr>"

definition exampleItemsReset :: ChangeRow where
  "exampleItemsReset =
     (keyRow Update [''id'' \<mapsto> IntV 1, ''seq'' \<mapsto> IntV 1])
       \<lparr>GetListChange :=
          (\<lambda>name. if name = ''items''
                   then \<lparr>lcAppendedElements = Some [(TextV ''K1'', TextV ''x'')],
                         lcRemovedElements = None, lcIsReset = True\<rparr>
                   else \<lparr>lcAppendedElements = None, lcRemovedElements = None,
                         lcIsReset = False\<rparr>)\<rparr>"

text \<open>
  A reset of \<open>items\<close> whose appended cells are an empty map that is not nil, and an
  update of \<open>tags\<close> whose added and removed elements are empty and not nil.
\<close>

definition emptyAppendReset :: ChangeRow where
  "emptyAppendReset =
     (keyRow Update [''id'' \<mapsto> IntV 1, ''seq'' \<mapsto> IntV 1])
       \<lparr>GetListChange :=
          (\<lambda>name. if name = ''items''
                   then \<lparr>lcAppendedElements = Some [], lcRemovedElements = None,
                         lcIsReset = True\<rparr>
                   else \<lparr>lcAppendedElements = None, lcRemovedElements = None,
                         lcIsReset = False\<rparr>)\<rparr>"

definition emptyTagsUpdate :: ChangeRow where
  "emptyTagsUpdate =
     (keyRow Update [''id'' \<mapsto> IntV 1, ''seq'' \<mapsto> IntV 1])
       \<lparr>GetSetChange :=
          (\<lambda>name. if name = ''tags''
                   then \<lparr>AddedElements = SliceV [], RemovedElements = SliceV [],
                         IsReset = False\<rparr>
                   else \<lparr>AddedElements = VNil, RemovedElements = VNil, IsReset = False\<rparr>)\<rparr>"

text \<open>A factory whose catalog has the keyspace \<open>ks\<close> with the table \<open>t\<close>.\<close>

definition exampleFactory :: replicatorFactory where
  "exampleFactory =
     \<lparr>destinationSession =
        (\<lambda>ks. if ks = ''ks'' then Inr \<lparr>Tables = [''t'' \<mapsto> exampleMeta]\<rparr>
               else Inl ''keyspace does not exist''),
      rfConsistency = ConsistencyOne\<rparr>"

text \<open>
  Table \<open>ks.w\<close>: partition key \<open>(a, b, c)\<close>, clustering key \<open>seq\<close>, regular column
  \<open>val\<close>. The translator is the one built with one spare slot behind the three
  partition-key names, the capacity 4 that \<open>append\<close> reaches when it grows a slice
  from nil one element at a time; the event is an Update that deletes \<open>val\<close>.
\<close>

definition wideKeyMeta :: TableMetadata where
  "wideKeyMeta =
     \<lparr>tmKeyspace = ''ks'', tmName = ''w'',
      tmColumns =
        [''a'' \<mapsto> \<lparr>cmKind = ColumnPartitionKey, cmType = NativeType ''int''\<rparr>,
         ''b'' \<mapsto> \<lparr>cmKind = ColumnPartitionKey, cmType = NativeType ''int''\<rparr>,
         ''c'' \<mapsto> \<lparr>cmKind = ColumnPartitionKey, cmType = NativeType ''int''\<rparr>,
         ''seq'' \<mapsto> \<lparr>cmKind = ColumnClusteringKey, cmType = NativeType ''int''\<rparr>,
         ''val'' \<mapsto> \<lparr>cmKind = ColumnRegular, cmType = NativeType ''int''\<rparr>],
      tmOrderedColumns = [''a'', ''b'', ''c'', ''seq'', ''val'']\<rparr>"

definition wideKeyReplicator :: DeltaReplicator where
  "wideKeyReplicator =
     \<lparr>tableName = ''ks.w'',
      consistency = ConsistencyOne,
      pkColumns = \<lparr>arr = [''a'', ''b'', ''c'', []], len = 3\<rparr>,
      ckColumns = [''seq''],
      otherColumns = [''val''],
      columnTypes = (\<lambda>colName. map_option cmType (tmColumns wideKeyMeta colName)),
      allColumns = [''val'', ''a'', ''b'', ''c'', ''seq''],
      rowDeleteQueryStr = ''DELETE FROM ks.w WHERE a = ? AND b = ? AND c = ? AND seq = ?'',
      partitionDeleteQueryStr = ''DELETE FROM ks.w WHERE a = ? AND b = ? AND c = ?'',
      rangeDeleteQueryStrs =
        [''DELETE FROM ks.w WHERE a = ? AND b = ? AND c = ? AND seq >= ? AND seq <= ?'',
         ''DELETE FROM ks.w WHERE a = ? AND b = ? AND c = ? AND seq > ? AND seq <= ?'',
         ''DELETE FROM ks.w WHERE a = ? AND b = ? AND c = ? AND seq <= ?'',
         ''DELETE FROM ks.w WHERE a = ? AND b = ? AND c = ? AND seq >= ? AND seq < ?'',
         ''DELETE FROM ks.w WHERE a = ? AND b = ? AND c = ? AND seq > ? AND seq < ?'',
         ''DELETE FROM ks.w WHERE a = ? AND b = ? AND c = ? AND seq < ?'',
         ''DELETE FROM ks.w WHERE a = ? AND b = ? AND c = ? AND seq >= ?'',
         ''DELETE FROM ks.w WHERE a = ? AND b = ? AND c = ? AND seq > ?'']\<rparr>"

definition wideKeyUpdate :: ChangeRow where
  "wideKeyUpdate =
     (keyRow Update [''a'' \<mapsto> IntV 1, ''b'' \<mapsto> IntV 2, ''c'' \<mapsto> IntV 3, ''seq'' \<mapsto> IntV 4])
       \<lparr>GetScalarChange :=
          (\<lambda>name. if name = ''val'' then \<lparr>IsDeleted = True, Value = VNil\<rparr>
                   else noScalarChange)\<rparr>"

section \<open>Properties of the template builder\<close>

text \<open>The operation constants, unfolded together.\<close>

lemmas op_defs =
  PreImage_def Update_def Insert_def RowDelete_def PartitionDelete_def
  RangeDeleteStartInclusive_def RangeDeleteStartExclusive_def
  RangeDeleteEndInclusive_def RangeDeleteEndExclusive_def PostImage_def

text \<open>
  The tuple branch of \<open>makeBindMarkerForType\<close> always finds a tuple type behind the
  frozen wrappers, as the type assertion of the code requires.
\<close>

lemma Unfrozen_tuple: "Type_of ty = TypeTuple \<Longrightarrow> \<exists>elements. Unfrozen ty = TupleType elements"
  by (induction ty) simp_all

lemma lt8_cases: "typ < (8::nat) \<Longrightarrow> typ = 0 \<or> typ = 1 \<or> typ = 2 \<or> typ = 3 \<or> typ = 4 \<or> typ = 5 \<or> typ = 6 \<or> typ = 7"
  by arith

lemma rangeDeleteQuery_bounds:
  assumes "typ < 8"
  shows "rangeDeleteQuery prefix eqConds ckCol typ =
         prefix @ Join (eqConds @ boundConds ckCol (typ mod 3) (typ div 3)) '' AND ''"
  using lt8_cases [OF assms]
  by (elim disjE) (simp_all add: rangeDeleteQuery_def boundConds_def)

lemma length_rangeDeleteLoop:
  "length (rangeDeleteLoop prefix cks eqConds strs) = length strs + 8 * length cks"
  by (induction cks arbitrary: eqConds strs) simp_all

lemma rangeDeleteLoop_old:
  "j < length strs \<Longrightarrow> rangeDeleteLoop prefix cks eqConds strs ! j = strs ! j"
  by (induction cks arbitrary: eqConds strs) (simp_all add: nth_append)

lemma rangeDeleteLoop_nth:
  "j < 8 * length cks \<Longrightarrow>
   rangeDeleteLoop prefix cks eqConds strs ! (length strs + j) =
   rangeDeleteQuery prefix (eqConds @ map (\<lambda>ckCol. ckCol @ '' = ?'') (take (j div 8) cks))
     (cks ! (j div 8)) (j mod 8)"
proof (induction cks arbitrary: eqConds strs j)
  case Nil
  then show ?case by simp
next
  case (Cons ckCol rest)
  show ?case
  proof (cases "j < 8")
    case True
    then have "rangeDeleteLoop prefix (ckCol # rest) eqConds strs ! (length strs + j) =
               (strs @ map (rangeDeleteQuery prefix eqConds ckCol) [0..<8]) ! (length strs + j)"
      by (simp add: rangeDeleteLoop_old)
    also have "\<dots> = rangeDeleteQuery prefix eqConds ckCol j"
      using True by (simp add: nth_append del: upt_Suc)
    finally show ?thesis using True by simp
  next
    case False
    define j' where "j' = j - 8"
    have j: "j = j' + 8" and j'lt: "j' < 8 * length rest"
      using False Cons.prems by (simp_all add: j'_def)
    have "rangeDeleteLoop prefix (ckCol # rest) eqConds strs ! (length strs + j) =
          rangeDeleteLoop prefix rest (eqConds @ [ckCol @ '' = ?''])
            (strs @ map (rangeDeleteQuery prefix eqConds ckCol) [0..<8])
          ! (length (strs @ map (rangeDeleteQuery prefix eqConds ckCol) [0..<8]) + j')"
      by (simp add: j add.commute add.left_commute del: upt_Suc)
    also have "\<dots> = rangeDeleteQuery prefix
                      ((eqConds @ [ckCol @ '' = ?'']) @
                       map (\<lambda>ckCol. ckCol @ '' = ?'') (take (j' div 8) rest))
                      (rest ! (j' div 8)) (j' mod 8)"
      by (rule Cons.IH [OF j'lt])
    finally have step: "rangeDeleteLoop prefix (ckCol # rest) eqConds strs ! (length strs + j) =
          rangeDeleteQuery prefix
            ((eqConds @ [ckCol @ '' = ?'']) @
             map (\<lambda>ckCol. ckCol @ '' = ?'') (take (j' div 8) rest))
            (rest ! (j' div 8)) (j' mod 8)" .
    have d: "j div 8 = Suc (j' div 8)" and m: "j mod 8 = j' mod 8"
      by (simp_all add: j)
    show ?thesis unfolding step d m by simp
  qed
qed

lemma makeBindMarkerAssignmentList_Inr:
  "makeBindMarkerAssignmentList r names acc = Inr xs \<Longrightarrow>
   xs = acc @ equalities r names \<and> (\<forall>name \<in> set names. columnTypes r name \<noteq> None)"
proof (induction names arbitrary: acc)
  case Nil
  then show ?case by (simp add: equalities_def)
next
  case (Cons name names)
  from Cons.prems obtain ty where t: "columnTypes r name = Some ty"
    by (auto simp: columnType_def split: option.splits)
  with Cons.prems have
    "makeBindMarkerAssignmentList r names (acc @ [name @ '' = '' @ makeBindMarkerForType ty]) = Inr xs"
    by (simp add: columnType_def)
  from Cons.IH [OF this] t show ?case
    by (simp add: equalities_def bindMarker_def)
qed

lemma makeBindMarkerAssignmentList_typed:
  "\<forall>name \<in> set names. columnTypes r name \<noteq> None \<Longrightarrow>
   makeBindMarkerAssignmentList r names acc = Inr (acc @ equalities r names)"
proof (induction names arbitrary: acc)
  case Nil
  then show ?case by (simp add: equalities_def)
next
  case (Cons name names)
  from Cons.prems obtain ty where t: "columnTypes r name = Some ty"
    by auto
  from Cons.prems have "\<forall>name \<in> set names. columnTypes r name \<noteq> None"
    by simp
  from Cons.IH [OF this, of "acc @ [name @ '' = '' @ makeBindMarkerForType ty]"] t
  show ?case
    by (simp add: columnType_def equalities_def bindMarker_def)
qed

lemma classifyColumns_Inr:
  "classifyColumns meta names (pk, ck, other) = Inr (pk', ck', other') \<Longrightarrow>
   pk' = pk @ filter (isPartitionKey meta) names \<and>
   ck' = ck @ filter (isClusteringKey meta) names \<and>
   other' = other @ filter (isOtherColumn meta) names \<and>
   (\<forall>name \<in> set names. tmColumns meta name \<noteq> None)"
proof (induction names arbitrary: pk ck other)
  case Nil
  then show ?case by simp
next
  case (Cons name names)
  from Cons.prems obtain colDesc where c: "tmColumns meta name = Some colDesc"
    by (auto split: option.splits)
  show ?case
  proof (cases "cmKind colDesc")
    case ColumnPartitionKey
    with Cons.prems c Cons.IH [of "pk @ [name]" ck other] show ?thesis
      by (simp add: isPartitionKey_def isClusteringKey_def isOtherColumn_def kindOf_def)
  next
    case ColumnClusteringKey
    with Cons.prems c Cons.IH [of pk "ck @ [name]" other] show ?thesis
      by (simp add: isPartitionKey_def isClusteringKey_def isOtherColumn_def kindOf_def)
  qed (use Cons.prems c Cons.IH [of pk ck "other @ [name]"] in
       \<open>simp_all add: isPartitionKey_def isClusteringKey_def isOtherColumn_def kindOf_def\<close>)
qed

lemma equalities_cong:
  "columnTypes r = columnTypes r' \<Longrightarrow> equalities r names = equalities r' names"
  by (simp add: equalities_def bindMarker_def)

lemma NewDeltaReplicator_constructed:
  assumes "NewDeltaReplicator meta cons spare = Inr r"
  shows "constructed meta cons r"
proof -
  from assms obtain pk ck other where
    cl: "classifyColumns meta (tmOrderedColumns meta) ([], [], []) = Inr (pk, ck, other)"
    by (auto simp: NewDeltaReplicator_def split: sum.splits)
  define dr where "dr = \<lparr>tableName = tmKeyspace meta @ ''.'' @ tmName meta,
                     consistency = cons,
                     pkColumns = \<lparr>arr = pk @ replicate spare [], len = length pk\<rparr>,
                     ckColumns = ck,
                     otherColumns = other,
                     columnTypes = (\<lambda>colName. map_option cmType (tmColumns meta colName)),
                     allColumns = other @ pk @ ck,
                     rowDeleteQueryStr = [],
                     partitionDeleteQueryStr = [],
                     rangeDeleteQueryStrs = []\<rparr>"
  from classifyColumns_Inr [OF cl] have
    pk: "pk = filter (isPartitionKey meta) (tmOrderedColumns meta)" and
    ck: "ck = filter (isClusteringKey meta) (tmOrderedColumns meta)" and
    other: "other = filter (isOtherColumn meta) (tmOrderedColumns meta)" and
    dom: "\<forall>name \<in> set (tmOrderedColumns meta). tmColumns meta name \<noteq> None"
    by simp_all
  from assms cl obtain dr1 dr2 where
    s1: "computeRowDeleteQuery dr = Inr dr1" and
    s2: "computePartitionDeleteQuery dr1 = Inr dr2" and
    s3: "computeRangeDeleteQueries dr2 = Inr r"
    by (auto simp: NewDeltaReplicator_def dr_def Let_def split: sum.splits)
  from s1 obtain c1 where
    c1: "makeBindMarkerAssignmentList dr (elems (pkColumns dr) @ ckColumns dr) [] = Inr c1" and
    dr1: "dr1 = dr\<lparr>rowDeleteQueryStr := ''DELETE FROM '' @ tableName dr @ '' WHERE '' @ Join c1 '' AND ''\<rparr>"
    by (auto simp: computeRowDeleteQuery_def makeBindMarkerAssignments_def Let_def split: sum.splits)
  from s2 obtain c2 where
    c2: "makeBindMarkerAssignmentList dr1 (elems (pkColumns dr1)) [] = Inr c2" and
    dr2: "dr2 = dr1\<lparr>partitionDeleteQueryStr := ''DELETE FROM '' @ tableName dr1 @ '' WHERE '' @ Join c2 '' AND ''\<rparr>"
    by (auto simp: computePartitionDeleteQuery_def makeBindMarkerAssignments_def split: sum.splits)
  from s3 obtain c3 where
    c3: "makeBindMarkerAssignmentList dr2 (elems (pkColumns dr2)) [] = Inr c3" and
    r: "r = dr2\<lparr>rangeDeleteQueryStrs := rangeDeleteLoop (''DELETE FROM '' @ tableName dr2 @ '' WHERE '') (ckColumns dr2) c3 []\<rparr>"
    by (auto simp: computeRangeDeleteQueries_def Let_def split: sum.splits)
  have ty: "columnTypes dr1 = columnTypes dr" "columnTypes dr2 = columnTypes dr"
    "columnTypes r = columnTypes dr"
    by (simp_all add: r dr2 dr1)
  have eq: "equalities dr1 = equalities dr" "equalities dr2 = equalities dr"
    "equalities r = equalities dr"
    by (rule ext, rule equalities_cong, simp add: ty)+
  have pks: "pkColumns dr1 = pkColumns dr" "pkColumns dr2 = pkColumns dr"
    "pkColumns r = pkColumns dr"
    by (simp_all add: r dr2 dr1)
  have tn: "tableName dr1 = tableName dr" "tableName dr2 = tableName dr"
    "tableName r = tableName dr"
    by (simp_all add: r dr2 dr1)
  have cks: "ckColumns dr2 = ckColumns dr" "ckColumns r = ckColumns dr"
    by (simp_all add: r dr2 dr1)
  have e1: "c1 = equalities dr (elems (pkColumns dr) @ ckColumns dr)"
    using makeBindMarkerAssignmentList_Inr [OF c1] by simp
  have e2: "c2 = equalities dr (elems (pkColumns dr))"
    using makeBindMarkerAssignmentList_Inr [OF c2] by (simp add: eq pks)
  have e3: "c3 = equalities dr (elems (pkColumns dr))"
    using makeBindMarkerAssignmentList_Inr [OF c3] by (simp add: eq pks)
  have row: "rowDeleteQueryStr r = ''DELETE FROM '' @ tableName dr @ '' WHERE '' @ Join c1 '' AND ''"
    by (simp add: r dr2 dr1)
  have part: "partitionDeleteQueryStr r =
              ''DELETE FROM '' @ tableName dr @ '' WHERE '' @ Join c2 '' AND ''"
    by (simp add: r dr2 tn)
  have range: "rangeDeleteQueryStrs r =
               rangeDeleteLoop (''DELETE FROM '' @ tableName dr @ '' WHERE '') (ckColumns dr) c3 []"
    by (simp add: r tn cks)
  have el: "elems (pkColumns dr) = pk"
    by (simp add: dr_def elems_def)
  have typed: "\<forall>name \<in> set (tmOrderedColumns meta). columnTypes dr name \<noteq> None"
    using dom by (simp add: dr_def)
  have fields: "tableName dr = tmKeyspace meta @ ''.'' @ tmName meta" "consistency r = cons"
    "ckColumns dr = ck" "otherColumns r = other"
    "columnTypes dr = (\<lambda>colName. map_option cmType (tmColumns meta colName))"
    "len (pkColumns dr) \<le> length (arr (pkColumns dr))"
    by (simp_all add: r dr2 dr1 dr_def)
  show ?thesis
    unfolding constructed_def eq ty pks tn cks row part range e1 e2 e3 el
    using typed fields pk ck other by simp
qed

lemma example_construction:
  "NewDeltaReplicator exampleMeta ConsistencyOne 0 = Inr exampleReplicator"
  by (simp add: NewDeltaReplicator_def exampleMeta_def exampleReplicator_def
      computeRowDeleteQuery_def computePartitionDeleteQuery_def computeRangeDeleteQueries_def
      makeBindMarkerAssignments_def columnType_def makeBindMarkerForType_def elems_def
      rangeDeleteQuery_def upt_rec [of _ 8] Let_def)

lemma kind_cases:
  "k \<le> (2::nat) \<Longrightarrow> k = 0 \<or> k = 1 \<or> k = 2"
  by arith

lemma rangeIndex_decode:
  assumes "leftKind \<le> 2" "rightKind \<le> 2" "\<not> (leftKind = 2 \<and> rightKind = 2)"
  shows "rangeIndex d leftKind rightKind div 8 = d"
    and "rangeIndex d leftKind rightKind mod 8 mod 3 = leftKind"
    and "rangeIndex d leftKind rightKind mod 8 div 3 = rightKind"
proof -
  define x where "x = leftKind + 3 * rightKind"
  have x: "x < 8" "x mod 3 = leftKind" "x div 3 = rightKind"
    using kind_cases [OF assms(1)] kind_cases [OF assms(2)] assms(3)
    by (auto simp: x_def)
  have i: "rangeIndex d leftKind rightKind = x + 8 * d"
    by (simp add: rangeIndex_def x_def)
  show "rangeIndex d leftKind rightKind div 8 = d"
    unfolding i using x(1) by simp
  have "rangeIndex d leftKind rightKind mod 8 = x"
    unfolding i using x(1) by simp
  with x show "rangeIndex d leftKind rightKind mod 8 mod 3 = leftKind"
    and "rangeIndex d leftKind rightKind mod 8 div 3 = rightKind"
    by simp_all
qed

lemma rangeIndex_encode:
  "rangeIndex (j div 8) (j mod 8 mod 3) (j mod 8 div 3) = j"
proof -
  have "j mod 8 mod 3 + 3 * (j mod 8 div 3) = j mod 8"
    by simp
  then have "rangeIndex (j div 8) (j mod 8 mod 3) (j mod 8 div 3) = 8 * (j div 8) + j mod 8"
    unfolding rangeIndex_def by (simp only: add.assoc)
  then show ?thesis by simp
qed

lemma validCombo_decode:
  assumes "j < 8 * K"
  shows "validCombo K (j div 8) (j mod 8 mod 3) (j mod 8 div 3)"
proof -
  have d: "j div 8 < K"
    using assms by (simp add: less_mult_imp_div_less mult.commute)
  have "j mod 8 < 8" by simp
  from lt8_cases [OF this]
  have "j mod 8 mod 3 \<le> 2 \<and> j mod 8 div 3 \<le> 2 \<and> \<not> (j mod 8 mod 3 = 2 \<and> j mod 8 div 3 = 2)"
    by (elim disjE) simp_all
  with d show ?thesis
    by (simp add: validCombo_def)
qed

lemma constructed_range_nth:
  assumes "constructed meta cons r" and "j < 8 * length (ckColumns r)"
  shows "rangeDeleteQueryStrs r ! j = rangeTemplate r (j div 8) (j mod 8 mod 3) (j mod 8 div 3)"
proof -
  have "rangeDeleteQueryStrs r ! j =
        rangeDeleteLoop (''DELETE FROM '' @ tableName r @ '' WHERE '') (ckColumns r)
          (equalities r (elems (pkColumns r))) [] ! (length ([] :: string list) + j)"
    using assms(1) by (simp add: constructed_def)
  also have "\<dots> = rangeDeleteQuery (''DELETE FROM '' @ tableName r @ '' WHERE '')
                     (equalities r (elems (pkColumns r)) @
                      map (\<lambda>ckCol. ckCol @ '' = ?'') (take (j div 8) (ckColumns r)))
                     (ckColumns r ! (j div 8)) (j mod 8)"
    by (rule rangeDeleteLoop_nth [OF assms(2)])
  also have "\<dots> = rangeTemplate r (j div 8) (j mod 8 mod 3) (j mod 8 div 3)"
    by (simp add: rangeDeleteQuery_bounds rangeTemplate_def)
  finally show ?thesis .
qed

lemma constructed_range_length:
  "constructed meta cons r \<Longrightarrow> length (rangeDeleteQueryStrs r) = 8 * length (ckColumns r)"
  by (simp add: constructed_def length_rangeDeleteLoop)

lemma constructed_range_stored:
  assumes c: "constructed meta cons r"
    and v: "validCombo (length (ckColumns r)) d leftKind rightKind"
  shows "rangeIndex d leftKind rightKind < 8 * length (ckColumns r) \<and>
         rangeDeleteQueryStrs r ! rangeIndex d leftKind rightKind =
           rangeTemplate r d leftKind rightKind"
proof -
  from v have b: "leftKind \<le> 2" "rightKind \<le> 2" "\<not> (leftKind = 2 \<and> rightKind = 2)"
    "d < length (ckColumns r)"
    by (simp_all add: validCombo_def)
  have "leftKind + 3 * rightKind < 8"
    using b by arith
  with b(4) have lt: "rangeIndex d leftKind rightKind < 8 * length (ckColumns r)"
    unfolding rangeIndex_def by arith
  from constructed_range_nth [OF c lt] lt
  show ?thesis
    by (simp add: rangeIndex_decode [OF b(1-3)])
qed

text \<open>
  Claim C1. The range-delete table built at construction has eight entries per clustering
  column; the template of depth \<open>d\<close> with bound kinds \<open>leftKind\<close> and
  \<open>rightKind\<close> (inclusive 0, exclusive 1, absent 2, not both absent) is the entry at
  \<open>8 * d + leftKind + 3 * rightKind\<close>; that index map is injective on the valid
  combinations; and every index of the table is taken by a valid combination, so no entry
  is left for the combination without bounds.
\<close>

theorem range_delete_template_table:
  assumes "NewDeltaReplicator meta cons spare = Inr r"
    and "K = length (filter (isClusteringKey meta) (tmOrderedColumns meta))"
  shows "length (ckColumns r) = K \<and>
         length (rangeDeleteQueryStrs r) = 8 * K \<and>
         (\<forall>d leftKind rightKind. validCombo K d leftKind rightKind \<longrightarrow>
            rangeIndex d leftKind rightKind < 8 * K \<and>
            rangeDeleteQueryStrs r ! rangeIndex d leftKind rightKind =
              rangeTemplate r d leftKind rightKind) \<and>
         inj_on (\<lambda>(d, leftKind, rightKind). rangeIndex d leftKind rightKind)
           {(d, leftKind, rightKind). validCombo K d leftKind rightKind} \<and>
         (\<forall>j < 8 * K. validCombo K (j div 8) (j mod 8 mod 3) (j mod 8 div 3) \<and>
            rangeIndex (j div 8) (j mod 8 mod 3) (j mod 8 div 3) = j)"
proof -
  have c: "constructed meta cons r"
    by (rule NewDeltaReplicator_constructed [OF assms(1)])
  then have K: "length (ckColumns r) = K"
    by (simp add: constructed_def assms(2))
  have len: "length (rangeDeleteQueryStrs r) = 8 * K"
    using constructed_range_length [OF c] K by simp
  have stored: "rangeIndex d leftKind rightKind < 8 * K \<and>
        rangeDeleteQueryStrs r ! rangeIndex d leftKind rightKind =
          rangeTemplate r d leftKind rightKind"
    if v: "validCombo K d leftKind rightKind" for d leftKind rightKind
    using constructed_range_stored [OF c] v K by simp
  have inj: "inj_on (\<lambda>(d, leftKind, rightKind). rangeIndex d leftKind rightKind)
           {(d, leftKind, rightKind). validCombo K d leftKind rightKind}"
  proof (rule inj_onI)
    fix p q :: "nat \<times> nat \<times> nat"
    obtain d l r' where p: "p = (d, l, r')" by (cases p)
    obtain d' l' r'' where q: "q = (d', l', r'')" by (cases q)
    assume "p \<in> {(d, leftKind, rightKind). validCombo K d leftKind rightKind}"
      and "q \<in> {(d, leftKind, rightKind). validCombo K d leftKind rightKind}"
      and "(case p of (d, leftKind, rightKind) \<Rightarrow> rangeIndex d leftKind rightKind) =
           (case q of (d, leftKind, rightKind) \<Rightarrow> rangeIndex d leftKind rightKind)"
    then have v: "validCombo K d l r'" "validCombo K d' l' r''"
      and e: "rangeIndex d l r' = rangeIndex d' l' r''"
      by (simp_all add: p q)
    from v have b: "l \<le> 2" "r' \<le> 2" "\<not> (l = 2 \<and> r' = 2)"
      and b': "l' \<le> 2" "r'' \<le> 2" "\<not> (l' = 2 \<and> r'' = 2)"
      by (simp_all add: validCombo_def)
    from rangeIndex_decode [OF b, of d] rangeIndex_decode [OF b', of d'] e
    show "p = q"
      by (simp add: p q)
  qed
  have all_stored: "\<forall>d leftKind rightKind. validCombo K d leftKind rightKind \<longrightarrow>
            rangeIndex d leftKind rightKind < 8 * K \<and>
            rangeDeleteQueryStrs r ! rangeIndex d leftKind rightKind =
              rangeTemplate r d leftKind rightKind"
    using stored by blast
  have full: "\<forall>j < 8 * K. validCombo K (j div 8) (j mod 8 mod 3) (j mod 8 div 3) \<and>
            rangeIndex (j div 8) (j mod 8 mod 3) (j mod 8 div 3) = j"
    using validCombo_decode rangeIndex_encode by simp
  show ?thesis
    by (intro conjI K len all_stored inj full)
qed

theorem range_delete_template_table_witness:
  "NewDeltaReplicator exampleMeta ConsistencyOne 0 = Inr exampleReplicator \<and>
   length (rangeDeleteQueryStrs exampleReplicator) = 8 * 1 \<and>
   validCombo 1 0 0 2 \<and>
   rangeDeleteQueryStrs exampleReplicator ! rangeIndex 0 0 2 =
     rangeTemplate exampleReplicator 0 0 2"
proof -
  have K: "(1::nat) = length (filter (isClusteringKey exampleMeta) (tmOrderedColumns exampleMeta))"
    by (simp add: exampleMeta_def isClusteringKey_def kindOf_def)
  have v: "validCombo 1 0 0 2"
    by (simp add: validCombo_def)
  from range_delete_template_table [OF example_construction K] v example_construction
  show ?thesis by simp
qed

section \<open>Properties of the range-bound resolver\<close>

lemma appendKeyValuesToBind_map:
  "appendKeyValuesToBind vs names c = vs @ map (keyValue c) names"
  by (induction names arbitrary: vs)
     (simp_all add: GetValue_def keyValue_def split: option.splits)

lemma scan_both_prefix:
  "\<forall>col \<in> set pre. bothPresent start en col \<Longrightarrow>
   scanClusteringColumns start en (pre @ cks) i st =
   scanClusteringColumns start en cks (i + int (length pre))
     (st\<lparr>prevRight := (if pre = [] then prevRight st else valueOf en (last pre)),
         vals := vals st @ map (valueOf start) pre,
         hasLeft := (hasLeft st \<or> pre \<noteq> []),
         hasRight := (hasRight st \<or> pre \<noteq> [])\<rparr>)"
proof (induction pre arbitrary: i st)
  case Nil
  show ?case by simp
next
  case (Cons col pre)
  from Cons.prems have b: "bothPresent start en col"
    and rest: "\<forall>col \<in> set pre. bothPresent start en col"
    by simp_all
  from b obtain l r where lr: "data start col = Some l" "data en col = Some r"
    by (auto simp: bothPresent_def present_def)
  show ?case
    using Cons.IH [OF rest] lr
    by (simp add: GetValue_def valueOf_def add.assoc)
qed

lemma scan_stop:
  "\<not> bothPresent start en col \<Longrightarrow>
   scanClusteringColumns start en (col # cks) i st =
   (if present start col then
      st\<lparr>vals := vals st @ [valueOf start col], baseIdx := i,
         hasLeft := True, hasRight := False\<rparr>
    else if present en col then
      st\<lparr>vals := vals st @ [valueOf en col], baseIdx := i,
         hasLeft := False, hasRight := True\<rparr>
    else
      st\<lparr>vals := vals st @ [prevRight st], hasLeft := True,
         hasRight := True, baseIdx := i - 1\<rparr>)"
  by (auto simp: bothPresent_def present_def GetValue_def valueOf_def split: option.splits)

lemma cks_split:
  "cks = takeWhile (bothPresent start en) cks @ dropWhile (bothPresent start en) cks"
  by simp

lemma scan_result:
  fixes start en cks st
  defines "P \<equiv> takeWhile (bothPresent start en) cks"
  defines "st1 \<equiv> st\<lparr>prevRight := (if P = [] then prevRight st else valueOf en (last P)),
                      vals := vals st @ map (valueOf start) P,
                      hasLeft := (hasLeft st \<or> P \<noteq> []),
                      hasRight := (hasRight st \<or> P \<noteq> [])\<rparr>"
  shows "scanClusteringColumns start en cks 0 st =
         (if firstOpen start en cks = length cks then st1
          else scanClusteringColumns start en [cks ! firstOpen start en cks]
                 (int (firstOpen start en cks)) st1)"
proof -
  let ?D = "dropWhile (bothPresent start en) cks"
  have all: "\<forall>col \<in> set P. bothPresent start en col"
    unfolding P_def by (auto dest: set_takeWhileD)
  have split: "cks = P @ ?D"
    by (simp add: P_def)
  have n: "firstOpen start en cks = length P"
    by (simp add: firstOpen_def P_def)
  have pre: "scanClusteringColumns start en cks 0 st =
             scanClusteringColumns start en ?D (int (length P)) st1"
    using scan_both_prefix [OF all, of ?D 0 st] split by (simp add: st1_def)
  show ?thesis
  proof (cases ?D)
    case Nil
    then have "P = cks"
      unfolding P_def by simp
    then have "length P = length cks"
      by simp
    with pre Nil show ?thesis by (simp add: n)
  next
    case (Cons col rest)
    then have nb: "\<not> bothPresent start en col"
      using hd_dropWhile [of "bothPresent start en" cks] by auto
    have lt: "length P \<noteq> length cks"
      using split Cons by (metis length_append add_cancel_right_right
          length_0_conv list.distinct(1))
    have nth: "cks ! length P = col"
      using split Cons by (metis nth_append_length)
    have "scanClusteringColumns start en (col # rest) (int (length P)) st1 =
          scanClusteringColumns start en [col] (int (length P)) st1"
      by (simp only: scan_stop [OF nb])
    with pre Cons lt nth show ?thesis by (simp add: n)
  qed
qed

lemma firstOpen_le: "firstOpen start en cks \<le> length cks"
  by (simp add: firstOpen_def length_takeWhile_le)

lemma firstOpen_not_both:
  "firstOpen start en cks < length cks \<Longrightarrow>
   \<not> bothPresent start en (cks ! firstOpen start en cks)"
  unfolding firstOpen_def by (rule nth_length_takeWhile)

lemma firstOpen_both_before:
  "j < firstOpen start en cks \<Longrightarrow> bothPresent start en (cks ! j)"
  unfolding firstOpen_def
  by (metis nth_mem set_takeWhileD takeWhile_nth)

lemma takeWhile_take_firstOpen:
  "takeWhile (bothPresent start en) cks = take (firstOpen start en cks) cks"
  unfolding firstOpen_def by (rule takeWhile_eq_take)

lemma take_last_nth:
  assumes "0 < n" "n \<le> length xs"
  shows "last (take n xs) = xs ! (n - 1)"
    and "take n xs = take (n - 1) xs @ [xs ! (n - 1)]"
    and "take n xs \<noteq> []"
proof -
  from assms obtain m where m: "n = Suc m" "m < length xs"
    by (cases n) auto
  show t: "take n xs = take (n - 1) xs @ [xs ! (n - 1)]"
    using m by (simp add: take_Suc_conv_app_nth)
  show "last (take n xs) = xs ! (n - 1)"
    unfolding t by simp
  show "take n xs \<noteq> []"
    unfolding t by simp
qed

lemma start_offsets:
  "sint (RangeDeleteStartInclusive - RangeDeleteStartInclusive) = 0"
  "sint (RangeDeleteStartExclusive - RangeDeleteStartInclusive) = 1"
  "sint (RangeDeleteEndInclusive - RangeDeleteEndInclusive) = 0"
  "sint (RangeDeleteEndExclusive - RangeDeleteEndInclusive) = 1"
  by (simp_all add: op_defs)

lemma specKind_start:
  assumes "op = RangeDeleteStartInclusive \<or> op = RangeDeleteStartExclusive"
  shows "specKind True op RangeDeleteStartInclusive RangeDeleteStartExclusive =
         sint (op - RangeDeleteStartInclusive)"
  using assms by (auto simp: specKind_def start_offsets)

lemma specKind_end:
  assumes "op = RangeDeleteEndInclusive \<or> op = RangeDeleteEndExclusive"
  shows "specKind True op RangeDeleteEndInclusive RangeDeleteEndExclusive =
         sint (op - RangeDeleteEndInclusive)"
  using assms by (auto simp: specKind_def start_offsets)

lemma specKind_absent: "specKind False op inclusive exclusive = 2"
  by (simp add: specKind_def)

lemma resolveRange_spec:
  fixes r start en
  defines "cks \<equiv> ckColumns r"
  assumes nonempty: "cks \<noteq> []"
    and sop: "GetOperation start = RangeDeleteStartInclusive \<or>
              GetOperation start = RangeDeleteStartExclusive"
    and eop: "GetOperation en = RangeDeleteEndInclusive \<or>
              GetOperation en = RangeDeleteEndExclusive"
    and first: "present start (cks ! 0) \<or> present en (cks ! 0)"
  shows "resolveRange r start en =
         \<lparr>depth = specDepth start en cks,
          leftOff = specLeftKind start en cks,
          rightOff = specRightKind start en cks,
          queryIdx = 8 * specDepth start en cks + specLeftKind start en cks +
                     3 * specRightKind start en cks,
          bindVals = specBinds start en (elems (pkColumns r)) cks\<rparr>"
    and "0 \<le> specDepth start en cks" and "specDepth start en cks < int (length cks)"
    and "present start (cks ! nat (specDepth start en cks)) \<or>
         present en (cks ! nat (specDepth start en cks))"
proof -
  define n where "n = firstOpen start en cks"
  define st0 where "st0 = \<lparr>vals = map (keyValue start) (elems (pkColumns r)), prevRight = VNil,
                          hasLeft = False, hasRight = False, baseIdx = - 1\<rparr>"
  define st1 where "st1 = st0\<lparr>prevRight := (if take n cks = [] then prevRight st0
                                            else valueOf en (last (take n cks))),
                      vals := vals st0 @ map (valueOf start) (take n cks),
                      hasLeft := (hasLeft st0 \<or> take n cks \<noteq> []),
                      hasRight := (hasRight st0 \<or> take n cks \<noteq> [])\<rparr>"
  have K: "0 < length cks" using nonempty by simp
  have nle: "n \<le> length cks" unfolding n_def by (rule firstOpen_le)
  have scan: "scanClusteringColumns start en cks 0 st0 =
         (if n = length cks then st1
          else scanClusteringColumns start en [cks ! n] (int n) st1)"
    unfolding n_def st1_def takeWhile_take_firstOpen [symmetric]
    by (rule scan_result)
  have res: "resolveRange r start en =
     (let st = scanClusteringColumns start en cks 0 st0;
          st = (if baseIdx st = - 1
                then st\<lparr>vals := vals st @ [prevRight st], baseIdx := int (length cks) - 1\<rparr>
                else st);
          leftOff = (if hasLeft st
                     then sint (GetOperation start - RangeDeleteStartInclusive) else 2);
          rightOff = (if hasRight st
                      then sint (GetOperation en - RangeDeleteEndInclusive) else 2)
      in \<lparr>depth = baseIdx st, leftOff = leftOff, rightOff = rightOff,
          queryIdx = 8 * baseIdx st + leftOff + 3 * rightOff, bindVals = vals st\<rparr>)"
    unfolding resolveRange_def cks_def st0_def appendKeyValuesToBind_map by simp
  consider (all) "n = length cks"
    | (left) "n < length cks" "present start (cks ! n)"
    | (right) "n < length cks" "\<not> present start (cks ! n)" "present en (cks ! n)"
    | (neither) "n < length cks" "\<not> present start (cks ! n)" "\<not> present en (cks ! n)"
    using nle by fastforce
  then have "resolveRange r start en =
         \<lparr>depth = specDepth start en cks,
          leftOff = specLeftKind start en cks,
          rightOff = specRightKind start en cks,
          queryIdx = 8 * specDepth start en cks + specLeftKind start en cks +
                     3 * specRightKind start en cks,
          bindVals = specBinds start en (elems (pkColumns r)) cks\<rparr> \<and>
        0 \<le> specDepth start en cks \<and> specDepth start en cks < int (length cks) \<and>
        (present start (cks ! nat (specDepth start en cks)) \<or>
         present en (cks ! nat (specDepth start en cks)))"
  proof cases
    case all
    have d: "specDepth start en cks = int (length cks) - 1"
      by (simp add: specDepth_def n_def [symmetric] all)
    have b: "bothPresent start en (cks ! (length cks - 1))"
      using firstOpen_both_before [of "length cks - 1" start en cks] K all
      by (simp add: n_def)
    have nd: "nat (int (length cks) - 1) = length cks - 1"
      by simp
    have c: "cks = take (length cks - 1) cks @ [cks ! (length cks - 1)]"
      using take_last_nth(2) [OF K order_refl] by simp
    have m1: "map (valueOf start) cks =
              map (valueOf start) (take (length cks - 1) cks) @
              [valueOf start (cks ! (length cks - 1))]"
      using arg_cong [OF c, of "map (valueOf start)"] by simp
    have m2: "last cks = cks ! (length cks - 1)"
      using nonempty by (rule last_conv_nth)
    have st: "scanClusteringColumns start en cks 0 st0 = st1"
      using scan all by simp
    show ?thesis
      unfolding res st
      using b K m1 m2
      by (simp add: Let_def st1_def st0_def all d nd specLeftKind_def specRightKind_def
          specBinds_def bothPresent_def specKind_start [OF sop] specKind_end [OF eop])
  next
    case left
    have nb: "\<not> bothPresent start en (cks ! n)"
      using firstOpen_not_both [of start en cks] left(1) by (simp add: n_def)
    with left(2) have ne: "\<not> present en (cks ! n)"
      by (simp add: bothPresent_def)
    have d: "specDepth start en cks = int n"
      using left by (simp add: specDepth_def n_def [symmetric])
    have st: "scanClusteringColumns start en cks 0 st0 =
              st1\<lparr>vals := vals st1 @ [valueOf start (cks ! n)], baseIdx := int n,
                 hasLeft := True, hasRight := False\<rparr>"
      using scan left by (simp only: scan_stop [OF nb]) simp
    show ?thesis
      unfolding res st
      using left ne
      by (simp add: Let_def st1_def st0_def d specLeftKind_def specRightKind_def
          specBinds_def specKind_start [OF sop] specKind_absent)
  next
    case right
    have nb: "\<not> bothPresent start en (cks ! n)"
      using right(2) by (simp add: bothPresent_def)
    have d: "specDepth start en cks = int n"
      using right by (simp add: specDepth_def n_def [symmetric])
    have st: "scanClusteringColumns start en cks 0 st0 =
              st1\<lparr>vals := vals st1 @ [valueOf en (cks ! n)], baseIdx := int n,
                 hasLeft := False, hasRight := True\<rparr>"
      using scan right by (simp only: scan_stop [OF nb]) simp
    show ?thesis
      unfolding res st
      using right
      by (simp add: Let_def st1_def st0_def d specLeftKind_def specRightKind_def
          specBinds_def specKind_end [OF eop] specKind_absent)
  next
    case neither
    have nb: "\<not> bothPresent start en (cks ! n)"
      using neither(2) by (simp add: bothPresent_def)
    have n0: "0 < n"
      using first neither by (cases n) auto
    have d: "specDepth start en cks = int n - 1"
      using neither by (simp add: specDepth_def n_def [symmetric])
    have nd: "nat (int n - 1) = n - 1"
      by simp
    have b: "bothPresent start en (cks ! (n - 1))"
      using firstOpen_both_before [of "n - 1" start en cks] n0
      by (simp add: n_def)
    note tl = take_last_nth [OF n0 nle]
    have st: "scanClusteringColumns start en cks 0 st0 =
              st1\<lparr>vals := vals st1 @ [prevRight st1], hasLeft := True,
                 hasRight := True, baseIdx := int n - 1\<rparr>"
      using scan neither by (simp only: scan_stop [OF nb]) simp
    have ne: "int n - 1 \<noteq> - 1"
      using n0 by simp
    show ?thesis
      unfolding res st
      using b tl n0 neither(1) ne
      by (simp add: Let_def st1_def st0_def d nd specLeftKind_def specRightKind_def
          specBinds_def bothPresent_def specKind_start [OF sop] specKind_end [OF eop])
  qed
  then show "resolveRange r start en =
         \<lparr>depth = specDepth start en cks,
          leftOff = specLeftKind start en cks,
          rightOff = specRightKind start en cks,
          queryIdx = 8 * specDepth start en cks + specLeftKind start en cks +
                     3 * specRightKind start en cks,
          bindVals = specBinds start en (elems (pkColumns r)) cks\<rparr>"
    and "0 \<le> specDepth start en cks" and "specDepth start en cks < int (length cks)"
    and "present start (cks ! nat (specDepth start en cks)) \<or>
         present en (cks ! nat (specDepth start en cks))"
    by simp_all
qed

lemma specKind_range:
  "specKind b op inclusive exclusive = 0 \<or> specKind b op inclusive exclusive = 1 \<or>
   specKind b op inclusive exclusive = 2"
  by (simp add: specKind_def)

lemma specKind_bound_start:
  assumes "op = RangeDeleteStartInclusive \<or> op = RangeDeleteStartExclusive"
  shows "specKind True op RangeDeleteStartInclusive RangeDeleteStartExclusive \<noteq> 2"
  using assms by (auto simp: specKind_def)

lemma specKind_bound_end:
  assumes "op = RangeDeleteEndInclusive \<or> op = RangeDeleteEndExclusive"
  shows "specKind True op RangeDeleteEndInclusive RangeDeleteEndExclusive \<noteq> 2"
  using assms by (auto simp: specKind_def)

lemma rangeIndex_int:
  assumes "0 \<le> d" "0 \<le> l" "0 \<le> k"
  shows "int (rangeIndex (nat d) (nat l) (nat k)) = 8 * d + l + 3 * k"
  using assms by (simp add: rangeIndex_def)

lemma processRangeDelete_spec:
  fixes r start en
  defines "cks \<equiv> ckColumns r"
  assumes c: "constructed meta cons r"
    and nonempty: "cks \<noteq> []"
    and sop: "GetOperation start = RangeDeleteStartInclusive \<or>
              GetOperation start = RangeDeleteStartExclusive"
    and eop: "GetOperation en = RangeDeleteEndInclusive \<or>
              GetOperation en = RangeDeleteEndExclusive"
    and first: "present start (cks ! 0) \<or> present en (cks ! 0)"
  shows "processRangeDelete r sess log timestamp start en =
         execute r sess log
           (ExecQuery
              (rangeTemplate r (nat (specDepth start en cks)) (nat (specLeftKind start en cks))
                 (nat (specRightKind start en cks)))
              (specBinds start en (elems (pkColumns r)) cks) (consistency r) timestamp)"
proof -
  let ?d = "specDepth start en cks" and ?l = "specLeftKind start en cks"
    and ?k = "specRightKind start en cks"
  note rs = resolveRange_spec [OF nonempty [unfolded cks_def] sop eop first [unfolded cks_def],
      folded cks_def]
  have l: "?l = 0 \<or> ?l = 1 \<or> ?l = 2" and k: "?k = 0 \<or> ?k = 1 \<or> ?k = 2"
    unfolding specLeftKind_def specRightKind_def by (rule specKind_range)+
  have nb: "\<not> (?l = 2 \<and> ?k = 2)"
    using rs(4) specKind_bound_start [OF sop] specKind_bound_end [OF eop]
    by (auto simp: specLeftKind_def specRightKind_def)
  have v: "validCombo (length (ckColumns r)) (nat ?d) (nat ?l) (nat ?k)"
    using rs(2,3) l k nb by (auto simp: validCombo_def cks_def)
  from constructed_range_stored [OF c v]
  have lt: "rangeIndex (nat ?d) (nat ?l) (nat ?k) < 8 * length (ckColumns r)"
    and nth: "rangeDeleteQueryStrs r ! rangeIndex (nat ?d) (nat ?l) (nat ?k) =
              rangeTemplate r (nat ?d) (nat ?l) (nat ?k)"
    by simp_all
  have nn: "0 \<le> ?l" "0 \<le> ?k"
    using l k by auto
  have idx: "int (rangeIndex (nat ?d) (nat ?l) (nat ?k)) = 8 * ?d + ?l + 3 * ?k"
    by (rule rangeIndex_int [OF rs(2) nn])
  have q: "queryIdx (resolveRange r start en) = int (rangeIndex (nat ?d) (nat ?l) (nat ?k))"
    "bindVals (resolveRange r start en) = specBinds start en (elems (pkColumns r)) cks"
    unfolding rs(1) idx by simp_all
  have len: "length (rangeDeleteQueryStrs r) = 8 * length (ckColumns r)"
    by (rule constructed_range_length [OF c])
  show ?thesis
    unfolding processRangeDelete_def Let_def q len
    using lt nth by simp
qed

lemma keyRow_simps:
  "GetOperation (keyRow op d) = op" "data (keyRow op d) = d"
  by (simp_all add: keyRow_def GetOperation_def)

lemma example_range_resolution:
  "resolveRange exampleReplicator exampleRangeStart exampleRangeEnd =
     \<lparr>depth = 0, leftOff = 0, rightOff = 2, queryIdx = 6, bindVals = [IntV 1, IntV 5]\<rparr>"
  by (simp add: resolveRange_def exampleReplicator_def exampleRangeStart_def exampleRangeEnd_def
      keyRow_simps GetValue_def elems_def Let_def op_defs)

lemma example_range_query:
  "rangeDeleteQueryStrs exampleReplicator ! 6 = ''DELETE FROM ks.t WHERE id = ? AND seq >= ?''"
  by (simp add: exampleReplicator_def)

text \<open>
  Claim C2. A start/end pair that describes one clustering-range tombstone is a
  RangeDeleteStart event and a RangeDeleteEnd event on a table with clustering columns,
  of which at least one carries a value of the first clustering column: the pair with no
  bound on either side is what the specification calls not a range, and the rule for a
  column absent on both sides reads the left value recorded for the column before it.
  For a translator built by \<open>NewDeltaReplicator\<close> and such a pair, the resolver's
  depth, bound kinds, template index and bind values are those of the specification
  (\<open>specDepth\<close>, \<open>specLeftKind\<close>, \<open>specRightKind\<close>,
  \<open>8 * depth + leftKind + 3 * rightKind\<close>, \<open>specBinds\<close>), the depth is a
  clustering column, and the statement executed is the stored template of that depth and
  those kinds with those bind values. For the example table, the start event with
  \<open>seq = 5\<close>, Inclusive, and the end event without \<open>seq\<close> give depth 0, kinds 0 and
  2, index 6 and the values of \<open>id\<close> and 5 bound to the sixth template.
\<close>

theorem range_bound_resolution:
  assumes "NewDeltaReplicator meta cons spare = Inr r"
    and "ckColumns r \<noteq> []"
    and "GetOperation start = RangeDeleteStartInclusive \<or>
         GetOperation start = RangeDeleteStartExclusive"
    and "GetOperation en = RangeDeleteEndInclusive \<or>
         GetOperation en = RangeDeleteEndExclusive"
    and "present start (ckColumns r ! 0) \<or> present en (ckColumns r ! 0)"
  shows "resolveRange r start en =
           \<lparr>depth = specDepth start en (ckColumns r),
            leftOff = specLeftKind start en (ckColumns r),
            rightOff = specRightKind start en (ckColumns r),
            queryIdx = 8 * specDepth start en (ckColumns r) +
                       specLeftKind start en (ckColumns r) +
                       3 * specRightKind start en (ckColumns r),
            bindVals = specBinds start en (elems (pkColumns r)) (ckColumns r)\<rparr> \<and>
         0 \<le> specDepth start en (ckColumns r) \<and>
         specDepth start en (ckColumns r) < int (length (ckColumns r)) \<and>
         processRangeDelete r sess log timestamp start en =
           execute r sess log
             (ExecQuery
                (rangeTemplate r (nat (specDepth start en (ckColumns r)))
                   (nat (specLeftKind start en (ckColumns r)))
                   (nat (specRightKind start en (ckColumns r))))
                (specBinds start en (elems (pkColumns r)) (ckColumns r))
                (consistency r) timestamp) \<and>
         resolveRange exampleReplicator exampleRangeStart exampleRangeEnd =
           \<lparr>depth = 0, leftOff = 0, rightOff = 2, queryIdx = 6,
            bindVals = [IntV 1, IntV 5]\<rparr> \<and>
         rangeDeleteQueryStrs exampleReplicator ! 6 =
           ''DELETE FROM ks.t WHERE id = ? AND seq >= ?''"
proof -
  have c: "constructed meta cons r"
    by (rule NewDeltaReplicator_constructed [OF assms(1)])
  note rs = resolveRange_spec [OF assms(2-5)]
  note pr = processRangeDelete_spec [OF c assms(2-5), of sess log timestamp]
  show ?thesis
    by (intro conjI rs(1) rs(2) rs(3) pr example_range_resolution example_range_query)
qed

theorem range_bound_resolution_witness:
  "NewDeltaReplicator exampleMeta ConsistencyOne 0 = Inr exampleReplicator \<and>
   ckColumns exampleReplicator \<noteq> [] \<and>
   GetOperation exampleRangeStart = RangeDeleteStartInclusive \<and>
   GetOperation exampleRangeEnd = RangeDeleteEndInclusive \<and>
   present exampleRangeStart (ckColumns exampleReplicator ! 0) \<and>
   processRangeDelete exampleReplicator okSession [] 42 exampleRangeStart exampleRangeEnd =
     (None, exampleReplicator,
      [ExecQuery ''DELETE FROM ks.t WHERE id = ? AND seq >= ?'' [IntV 1, IntV 5]
         ConsistencyOne 42])"
proof -
  have h: "ckColumns exampleReplicator \<noteq> []"
    "GetOperation exampleRangeStart = RangeDeleteStartInclusive \<or>
     GetOperation exampleRangeStart = RangeDeleteStartExclusive"
    "GetOperation exampleRangeEnd = RangeDeleteEndInclusive \<or>
     GetOperation exampleRangeEnd = RangeDeleteEndExclusive"
    "present exampleRangeStart (ckColumns exampleReplicator ! 0) \<or>
     present exampleRangeEnd (ckColumns exampleReplicator ! 0)"
    by (simp_all add: exampleReplicator_def exampleRangeStart_def exampleRangeEnd_def
        keyRow_simps present_def)
  have d: "specDepth exampleRangeStart exampleRangeEnd (ckColumns exampleReplicator) = 0"
    by (simp add: specDepth_def firstOpen_def bothPresent_def present_def
        exampleReplicator_def exampleRangeStart_def exampleRangeEnd_def keyRow_simps)
  have l: "specLeftKind exampleRangeStart exampleRangeEnd (ckColumns exampleReplicator) = 0"
    unfolding specLeftKind_def d
    by (simp add: specKind_def present_def
        exampleReplicator_def exampleRangeStart_def exampleRangeEnd_def keyRow_simps)
  have k: "specRightKind exampleRangeStart exampleRangeEnd (ckColumns exampleReplicator) = 2"
    unfolding specRightKind_def d
    by (simp add: specKind_def present_def
        exampleReplicator_def exampleRangeStart_def exampleRangeEnd_def keyRow_simps)
  have b: "specBinds exampleRangeStart exampleRangeEnd (elems (pkColumns exampleReplicator))
             (ckColumns exampleReplicator) = [IntV 1, IntV 5]"
    unfolding specBinds_def d
    by (simp add: present_def valueOf_def keyValue_def elems_def
        exampleReplicator_def exampleRangeStart_def exampleRangeEnd_def keyRow_simps)
  have t: "rangeTemplate exampleReplicator 0 0 2 = ''DELETE FROM ks.t WHERE id = ? AND seq >= ?''"
    by (simp add: rangeTemplate_def equalities_def bindMarker_def boundConds_def elems_def
        exampleReplicator_def exampleMeta_def makeBindMarkerForType_def)
  from range_bound_resolution [OF example_construction h, of okSession "[]" 42]
  have "processRangeDelete exampleReplicator okSession [] 42 exampleRangeStart exampleRangeEnd =
        execute exampleReplicator okSession []
          (ExecQuery ''DELETE FROM ks.t WHERE id = ? AND seq >= ?'' [IntV 1, IntV 5]
             (consistency exampleReplicator) 42)"
    by (simp add: d l k b t)
  then show ?thesis
    using example_construction h(1)
    by (simp add: execute_def okSession_def exampleReplicator_def exampleRangeStart_def
        exampleRangeEnd_def keyRow_simps present_def)
qed

text \<open>
  Outside that domain, on a pair with no value of the first clustering column on either
  side, \<open>baseIdx = i - 1\<close> is \<open>-1\<close>, the value that also stands for a scan that
  stopped nowhere: the code then takes the last clustering column as two-sided and binds
  \<open>prevRight\<close>, still nil, twice.
\<close>

lemma unbounded_pair_resolution:
  "GetOperation unboundedRangeStart = RangeDeleteStartInclusive \<and>
   GetOperation exampleRangeEnd = RangeDeleteEndInclusive \<and>
   specDepth unboundedRangeStart exampleRangeEnd (ckColumns exampleReplicator) = - 1 \<and>
   resolveRange exampleReplicator unboundedRangeStart exampleRangeEnd =
     \<lparr>depth = 0, leftOff = 0, rightOff = 0, queryIdx = 0,
      bindVals = [IntV 1, VNil, VNil]\<rparr>"
  by (simp add: resolveRange_def specDepth_def firstOpen_def bothPresent_def present_def
      exampleReplicator_def unboundedRangeStart_def exampleRangeEnd_def
      keyRow_simps GetValue_def elems_def Let_def op_defs)

section \<open>Properties of the insert and update translation\<close>

lemma go_append_snd: "snd (go_append s xs) = elems s @ xs"
  by (simp add: go_append_def)

lemma go_append_fst:
  "elems (fst (go_append s xs)) = elems s"
  "len (fst (go_append s xs)) = len s"
  "length (arr (fst (go_append s xs))) = length (arr s)"
  by (auto simp: go_append_def elems_def)

lemma udtFieldQueries_pk:
  "udtFieldQueries (r\<lparr>pkColumns := p\<rparr>) c keyColumns pkConditions colName ty els batch =
   udtFieldQueries r c keyColumns pkConditions colName ty els batch"
proof (induction els arbitrary: batch)
  case Nil
  show ?case by simp
next
  case (Cons e els)
  obtain el v where e: "e = (el, v)" by (cases e)
  show ?case
    unfolding e by (simp add: Let_def Cons.IH split: sum.splits)
qed

lemma branch_pk:
  "scalarColumnQueries (r\<lparr>pkColumns := p\<rparr>) c keyColumns pkConditions colName ty =
   scalarColumnQueries r c keyColumns pkConditions colName ty"
  "listColumnQueries (r\<lparr>pkColumns := p\<rparr>) timestamp c keyColumns pkConditions colName ty =
   listColumnQueries r timestamp c keyColumns pkConditions colName ty"
  "setOrMapColumnQueries (r\<lparr>pkColumns := p\<rparr>) c keyColumns pkConditions colName ty =
   setOrMapColumnQueries r c keyColumns pkConditions colName ty"
  "udtColumnQueries (r\<lparr>pkColumns := p\<rparr>) c keyColumns pkConditions colName ty =
   udtColumnQueries r c keyColumns pkConditions colName ty"
  by (simp_all add: scalarColumnQueries_def listColumnQueries_def setOrMapColumnQueries_def
      udtColumnQueries_def udtFieldQueries_pk Let_def
      cong: sum.case_cong option.case_cong)

lemma columnQueries_pk:
  "columnQueries (r\<lparr>pkColumns := p\<rparr>) timestamp c keyColumns pkConditions colName =
   columnQueries r timestamp c keyColumns pkConditions colName"
  by (simp add: columnQueries_def columnType_def branch_pk split: option.splits)

lemma otherColumnsLoop_pk:
  "otherColumnsLoop (r\<lparr>pkColumns := p\<rparr>) timestamp c keyColumns pkConditions cols batch =
   otherColumnsLoop r timestamp c keyColumns pkConditions cols batch"
  by (induction cols arbitrary: batch) (simp_all add: columnQueries_pk split: sum.splits)

lemma otherColumnsLoop_Inr:
  "otherColumnsLoop r timestamp c keyColumns pkConditions cols batch = Inr res \<Longrightarrow>
   (\<forall>col \<in> set cols. \<exists>qs. columnQueries r timestamp c keyColumns pkConditions col = Inr qs) \<and>
   res = batch @ concat (map (\<lambda>col. case columnQueries r timestamp c keyColumns pkConditions col of
                                      Inl f \<Rightarrow> [] | Inr qs \<Rightarrow> qs) cols)"
proof (induction cols arbitrary: batch)
  case Nil
  then show ?case by simp
next
  case (Cons col cols)
  from Cons.prems obtain qs where
    q: "columnQueries r timestamp c keyColumns pkConditions col = Inr qs"
    by (auto split: sum.splits)
  with Cons.prems have
    "otherColumnsLoop r timestamp c keyColumns pkConditions cols (batch @ qs) = Inr res"
    by simp
  from Cons.IH [OF this] q show ?case by simp
qed

lemma otherColumnsLoop_ok:
  "\<forall>col \<in> set cols. \<exists>qs. columnQueries r timestamp c keyColumns pkConditions col = Inr qs \<Longrightarrow>
   otherColumnsLoop r timestamp c keyColumns pkConditions cols batch =
   Inr (batch @ concat (map (\<lambda>col. case columnQueries r timestamp c keyColumns pkConditions col of
                                      Inl f \<Rightarrow> [] | Inr qs \<Rightarrow> qs) cols))"
proof (induction cols arbitrary: batch)
  case Nil
  then show ?case by simp
next
  case (Cons col cols)
  from Cons.prems obtain qs where
    q: "columnQueries r timestamp c keyColumns pkConditions col = Inr qs"
    by auto
  from Cons.prems have "\<forall>col \<in> set cols. \<exists>qs.
      columnQueries r timestamp c keyColumns pkConditions col = Inr qs"
    by simp
  from Cons.IH [OF this, of "batch @ qs"] q show ?case by simp
qed

lemma makeBindMarkerAssignmentList_pk:
  "makeBindMarkerAssignmentList (r\<lparr>pkColumns := p\<rparr>) names acc =
   makeBindMarkerAssignmentList r names acc"
  by (induction names arbitrary: acc) (simp_all add: columnType_def split: option.splits)

lemma keyBindMarkers_Inr:
  "keyBindMarkers r names acc = Inr ms \<Longrightarrow>
   ms = acc @ map (bindMarker r) names \<and> (\<forall>name \<in> set names. columnTypes r name \<noteq> None)"
proof (induction names arbitrary: acc)
  case Nil
  then show ?case by simp
next
  case (Cons name names)
  from Cons.prems obtain ty where t: "columnTypes r name = Some ty"
    by (auto simp: columnType_def split: option.splits)
  with Cons.prems have "keyBindMarkers r names (acc @ [makeBindMarkerForType ty]) = Inr ms"
    by (simp add: columnType_def)
  from Cons.IH [OF this] t show ?case
    by (simp add: bindMarker_def)
qed

lemma keyBindMarkers_typed:
  "\<forall>name \<in> set names. columnTypes r name \<noteq> None \<Longrightarrow>
   keyBindMarkers r names acc = Inr (acc @ map (bindMarker r) names)"
proof (induction names arbitrary: acc)
  case Nil
  then show ?case by simp
next
  case (Cons name names)
  from Cons.prems obtain ty where t: "columnTypes r name = Some ty"
    by auto
  from Cons.prems have "\<forall>name \<in> set names. columnTypes r name \<noteq> None"
    by simp
  from Cons.IH [OF this, of "acc @ [makeBindMarkerForType ty]"] t
  show ?case
    by (simp add: columnType_def bindMarker_def)
qed

lemma bindMarker_pk: "bindMarker (r\<lparr>pkColumns := p\<rparr>) = bindMarker r"
  by (rule ext) (simp add: bindMarker_def)

lemma equalities_pk: "equalities (r\<lparr>pkColumns := p\<rparr>) = equalities r"
  by (rule ext) (simp add: equalities_def bindMarker_pk)

lemma makeBindMarkerAssignments_Inr:
  "makeBindMarkerAssignments r names sep = Inr conds \<Longrightarrow>
   conds = Join (equalities r names) sep \<and> (\<forall>name \<in> set names. columnTypes r name \<noteq> None)"
  using makeBindMarkerAssignmentList_Inr [of r names "[]"]
  by (auto simp: makeBindMarkerAssignments_def split: sum.splits)

lemma makeBindMarkerAssignments_typed:
  "\<forall>name \<in> set names. columnTypes r name \<noteq> None \<Longrightarrow>
   makeBindMarkerAssignments r names sep = Inr (Join (equalities r names) sep)"
  by (simp add: makeBindMarkerAssignments_def makeBindMarkerAssignmentList_typed)

lemma insertMarkerQueries_typed:
  "\<forall>name \<in> set (keyColumnsOf r). columnTypes r name \<noteq> None \<Longrightarrow>
   insertMarkerQueries (r\<lparr>pkColumns := p\<rparr>) isInsert c (keyColumnsOf r) =
   Inr (if isInsert then [insertMarker r c] else [])"
  by (simp add: insertMarkerQueries_def keyBindMarkers_typed bindMarker_pk insertMarker_def
      keyValues_def appendKeyValuesToBind_map)

lemma buildBatch_unfold:
  "buildBatch r timestamp isInsert c =
     (r\<lparr>pkColumns := fst (go_append (pkColumns r) (ckColumns r))\<rparr>,
      case insertMarkerQueries (r\<lparr>pkColumns := fst (go_append (pkColumns r) (ckColumns r))\<rparr>)
             isInsert c (keyColumnsOf r) of
        Inl f \<Rightarrow> Inl f
      | Inr batch \<Rightarrow>
          (case makeBindMarkerAssignments r (keyColumnsOf r) '' AND '' of
             Inl f \<Rightarrow> Inl f
           | Inr pkConditions \<Rightarrow>
               otherColumnsLoop r timestamp c (keyColumnsOf r) pkConditions
                 (otherColumns r) batch))"
proof -
  obtain pk keyColumns where g: "go_append (pkColumns r) (ckColumns r) = (pk, keyColumns)"
    by (cases "go_append (pkColumns r) (ckColumns r)")
  have k: "keyColumns = keyColumnsOf r"
    using go_append_snd [of "pkColumns r" "ckColumns r"] g by (simp add: keyColumnsOf_def)
  have m: "makeBindMarkerAssignments (r\<lparr>pkColumns := pk\<rparr>) = makeBindMarkerAssignments r"
    by (intro ext) (simp add: makeBindMarkerAssignments_def
        makeBindMarkerAssignmentList_pk)
  show ?thesis
    by (simp add: buildBatch_def g k m otherColumnsLoop_pk Let_def
        cong: sum.case_cong)
qed

lemma columnEntries_fun:
  "(\<lambda>col. case columnQueries r timestamp c (keyColumnsOf r) (whereKeys r) col of
            Inl f \<Rightarrow> [] | Inr qs \<Rightarrow> qs) = columnEntries r timestamp c"
  by (rule ext) (simp add: columnEntries_def)

lemma buildBatch_Inr:
  assumes "buildBatch r timestamp isInsert c = (r', Inr batch)"
  shows "r' = r\<lparr>pkColumns := fst (go_append (pkColumns r) (ckColumns r))\<rparr>"
    and "\<forall>name \<in> set (keyColumnsOf r). columnTypes r name \<noteq> None"
    and "\<forall>col \<in> set (otherColumns r). \<exists>qs.
           columnQueries r timestamp c (keyColumnsOf r) (whereKeys r) col = Inr qs"
    and "batch = (if isInsert then [insertMarker r c] else []) @
                 concat (map (columnEntries r timestamp c) (otherColumns r))"
proof -
  let ?r1 = "r\<lparr>pkColumns := fst (go_append (pkColumns r) (ckColumns r))\<rparr>"
  from assms show "r' = ?r1"
    by (simp add: buildBatch_unfold)
  from assms obtain m P where
    m: "insertMarkerQueries ?r1 isInsert c (keyColumnsOf r) = Inr m" and
    P: "makeBindMarkerAssignments r (keyColumnsOf r) '' AND '' = Inr P" and
    l: "otherColumnsLoop r timestamp c (keyColumnsOf r) P (otherColumns r) m = Inr batch"
    by (auto simp: buildBatch_unfold split: sum.splits)
  from makeBindMarkerAssignments_Inr [OF P]
  have P': "P = whereKeys r"
    and typed: "\<forall>name \<in> set (keyColumnsOf r). columnTypes r name \<noteq> None"
    by (simp_all add: whereKeys_def)
  show "\<forall>name \<in> set (keyColumnsOf r). columnTypes r name \<noteq> None"
    by (rule typed)
  from m insertMarkerQueries_typed [OF typed]
  have m': "m = (if isInsert then [insertMarker r c] else [])"
    by simp
  from otherColumnsLoop_Inr [OF l]
  show "\<forall>col \<in> set (otherColumns r). \<exists>qs.
           columnQueries r timestamp c (keyColumnsOf r) (whereKeys r) col = Inr qs"
    and "batch = (if isInsert then [insertMarker r c] else []) @
                 concat (map (columnEntries r timestamp c) (otherColumns r))"
    unfolding P' m' columnEntries_fun by simp_all
qed

lemma buildBatch_ok:
  assumes "\<forall>name \<in> set (keyColumnsOf r). columnTypes r name \<noteq> None"
    and "\<forall>col \<in> set (otherColumns r). \<exists>qs.
           columnQueries r timestamp c (keyColumnsOf r) (whereKeys r) col = Inr qs"
  shows "buildBatch r timestamp isInsert c =
         (r\<lparr>pkColumns := fst (go_append (pkColumns r) (ckColumns r))\<rparr>,
          Inr ((if isInsert then [insertMarker r c] else []) @
               concat (map (columnEntries r timestamp c) (otherColumns r))))"
  unfolding buildBatch_unfold
  by (simp add: insertMarkerQueries_typed [OF assms(1)]
      makeBindMarkerAssignments_typed [OF assms(1)] whereKeys_def [symmetric]
      otherColumnsLoop_ok [OF assms(2)] columnEntries_fun)

lemma batch_column_split:
  assumes "buildBatch r timestamp isInsert c = (r', Inr batch)"
    and "i < length (otherColumns r)"
  shows "batch = entriesBefore r timestamp isInsert c i @
                 columnEntries r timestamp c (otherColumns r ! i) @
                 entriesAfter r timestamp c i"
proof -
  have "otherColumns r = take i (otherColumns r) @ otherColumns r ! i # drop (Suc i) (otherColumns r)"
    using assms(2) by (rule id_take_nth_drop)
  then have "concat (map (columnEntries r timestamp c) (otherColumns r)) =
             concat (map (columnEntries r timestamp c) (take i (otherColumns r))) @
             columnEntries r timestamp c (otherColumns r ! i) @
             concat (map (columnEntries r timestamp c) (drop (Suc i) (otherColumns r)))"
    by (metis concat.simps(2) concat_append list.simps(9) map_append)
  with buildBatch_Inr(4) [OF assms(1)] show ?thesis
    by (simp add: entriesBefore_def entriesAfter_def)
qed

lemma columnEntries_built:
  assumes "buildBatch r timestamp isInsert c = (r', Inr batch)"
    and "colName \<in> set (otherColumns r)"
  shows "columnQueries r timestamp c (keyColumnsOf r) (whereKeys r) colName =
         Inr (columnEntries r timestamp c colName)"
  using buildBatch_Inr(3) [OF assms(1)] assms(2)
  by (auto simp: columnEntries_def)

lemma marker_not_tuple: "Type_of ty \<noteq> TypeTuple \<Longrightarrow> makeBindMarkerForType ty = ''?''"
  by (simp add: makeBindMarkerForType_def)

lemma appendValueByType_plain:
  "Type_of ty \<noteq> TypeTuple \<Longrightarrow> appendValueByType vs v ty = Inr (vs @ [v])"
  by (simp add: appendValueByType_def)

lemma scalar_column_entries:
  assumes "columnTypes r colName = Some ty" and "scalarLike ty"
  shows "columnQueries r timestamp c (keyColumnsOf r) (whereKeys r) colName =
         Inr (if IsDeleted (GetScalarChange c colName) then
                [(deleteColumnStmt r colName, keyValues r c)]
              else if Value (GetScalarChange c colName) \<noteq> VNil then
                [(setColumnStmt r colName,
                  [GetTTL c, Value (GetScalarChange c colName)] @ keyValues r c)]
              else [])"
proof -
  from assms(2) have nt: "Type_of ty \<noteq> TypeTuple"
    and nc: "\<not> (\<not> IsFrozen ty \<and> IsCollection (Type_of ty))"
    by (auto simp: scalarLike_def)
  show ?thesis
    using nc
    by (simp add: columnQueries_def columnType_def assms(1) scalarColumnQueries_def
        appendValueByType_plain [OF nt] marker_not_tuple [OF nt] deleteColumnStmt_def
        setColumnStmt_def keyValues_def appendKeyValuesToBind_map Let_def)
qed

lemma appendedElementQueries_plain:
  "Type_of ty \<noteq> TypeTuple \<Longrightarrow>
   appendedElementQueries setStr c keyColumns ty cells batch =
   Inr (batch @ map (\<lambda>(k, v). (setStr, [GetTTL c, k, v] @ map (keyValue c) keyColumns)) cells)"
proof (induction cells arbitrary: batch)
  case Nil
  show ?case by simp
next
  case (Cons cell cells)
  obtain k v where cell: "cell = (k, v)" by (cases cell)
  show ?case
    unfolding cell
    by (simp add: appendValueByType_plain [OF Cons.prems] Cons.IH [OF Cons.prems]
        appendKeyValuesToBind_map)
qed

lemma list_column_entries:
  assumes "columnTypes r colName = Some ty" and "\<not> IsFrozen ty" and "Type_of ty = TypeList"
  shows "columnQueries r timestamp c (keyColumnsOf r) (whereKeys r) colName =
         Inr ((if lcIsReset (GetListChange c colName) then
                 [(clearListStmt r colName,
                   Int64 (if lcAppendedElements (GetListChange c colName) \<noteq> None
                          then timestamp - 1 else timestamp) # keyValues r c)]
               else []) @
              (case lcAppendedElements (GetListChange c colName) of
                 None \<Rightarrow> []
               | Some cells \<Rightarrow>
                   map (\<lambda>(k, v). (appendCellStmt r colName, [GetTTL c, k, v] @ keyValues r c))
                     cells) @
              (case lcRemovedElements (GetListChange c colName) of
                 None \<Rightarrow> []
               | Some ks \<Rightarrow> map (\<lambda>k. (removeCellStmt r colName, k # keyValues r c)) ks))"
proof -
  have nt: "Type_of ty \<noteq> TypeTuple"
    using assms(3) by simp
  show ?thesis
    using assms(2,3)
    by (simp add: columnQueries_def columnType_def assms(1) listColumnQueries_def
        appendedElementQueries_plain [OF nt] marker_not_tuple [OF nt] clearListStmt_def
        appendCellStmt_def removeCellStmt_def keyValues_def appendKeyValuesToBind_map Let_def
        split: option.splits)
qed

lemma set_or_map_column_entries:
  assumes "columnTypes r colName = Some ty" and "\<not> IsFrozen ty"
    and "Type_of ty = TypeSet \<or> Type_of ty = TypeMap"
  shows "columnQueries r timestamp c (keyColumnsOf r) (whereKeys r) colName =
         Inr (if IsReset (GetSetChange c colName) then
                [(setColumnStmt r colName,
                  [GetTTL c, AddedElements (GetSetChange c colName)] @ keyValues r c)]
              else
                (if AddedElements (GetSetChange c colName) \<noteq> VNil then
                   [(addToColumnStmt r colName,
                     [GetTTL c, AddedElements (GetSetChange c colName)] @ keyValues r c)]
                 else []) @
                (if RemovedElements (GetSetChange c colName) \<noteq> VNil then
                   [(removeFromColumnStmt r colName,
                     [GetTTL c, RemovedElements (GetSetChange c colName)] @ keyValues r c)]
                 else []))"
  using assms(2,3)
  by (auto simp: columnQueries_def columnType_def assms(1) setOrMapColumnQueries_def
      setColumnStmt_def addToColumnStmt_def removeFromColumnStmt_def keyValues_def
      appendKeyValuesToBind_map Let_def)

lemma mutationStmt_simps:
  "mutationStmt (''UPDATE '' @ s)" "mutationStmt (''DELETE '' @ s)"
  "\<not> mutationStmt (''INSERT INTO '' @ s)"
  by (simp_all add: mutationStmt_def)

lemma appendedElementQueries_stmts:
  "appendedElementQueries setStr c keyColumns ty cells batch = Inr res \<Longrightarrow>
   mutationStmt setStr \<Longrightarrow> \<forall>e \<in> set batch. mutationStmt (fst e) \<Longrightarrow>
   \<forall>e \<in> set res. mutationStmt (fst e)"
proof (induction cells arbitrary: batch)
  case Nil
  then show ?case by simp
next
  case (Cons cell cells)
  obtain k v where cell: "cell = (k, v)" by (cases cell)
  from Cons.prems(1) obtain vs where
    "appendedElementQueries setStr c keyColumns ty cells
       (batch @ [(setStr, appendKeyValuesToBind vs keyColumns c)]) = Inr res"
    unfolding cell by (auto split: sum.splits)
  from Cons.IH [OF this Cons.prems(2)] Cons.prems(2,3) show ?case
    by simp
qed

lemma udtFieldQueries_stmts:
  "udtFieldQueries r c keyColumns pkConditions colName ty els batch = Inr res \<Longrightarrow>
   \<forall>e \<in> set batch. mutationStmt (fst e) \<Longrightarrow>
   \<forall>e \<in> set res. mutationStmt (fst e)"
proof (induction els arbitrary: batch)
  case Nil
  then show ?case by simp
next
  case (Cons e els)
  obtain el v where e: "e = (el, v)" by (cases e)
  show ?case
  proof (cases "v = UnsetValue")
    case True
    with Cons.prems(1) have
      "udtFieldQueries r c keyColumns pkConditions colName ty els batch = Inr res"
      unfolding e by simp
    from Cons.IH [OF this Cons.prems(2)] show ?thesis .
  next
    case False
    with Cons.prems(1) obtain stmt vs where
      u: "udtFieldQueries r c keyColumns pkConditions colName ty els
            (batch @ [(stmt, vs)]) = Inr res"
      and m: "mutationStmt stmt"
      unfolding e by (auto simp: Let_def mutationStmt_def split: sum.splits)
    from Cons.IH [OF u] Cons.prems(2) m show ?thesis
      by simp
  qed
qed

lemma columnQueries_stmts:
  assumes "columnQueries r timestamp c keyColumns pkConditions colName = Inr qs"
  shows "\<forall>e \<in> set qs. mutationStmt (fst e)"
proof -
  from assms obtain ty where ty: "columnTypes r colName = Some ty"
    by (auto simp: columnQueries_def columnType_def split: option.splits)
  have scalar: "\<forall>e \<in> set qs. mutationStmt (fst e)"
    if "scalarColumnQueries r c keyColumns pkConditions colName ty = Inr qs"
    using that
    by (auto simp: scalarColumnQueries_def Let_def mutationStmt_def
        split: if_splits sum.splits)
  have lst: "\<forall>e \<in> set qs. mutationStmt (fst e)"
    if l: "listColumnQueries r timestamp c keyColumns pkConditions colName ty = Inr qs"
  proof -
    define b0 where "b0 =
      (if lcIsReset (GetListChange c colName) then
         [(''DELETE '' @ colName @ '' FROM '' @ tableName r @
           '' USING TIMESTAMP ? WHERE '' @ pkConditions,
           appendKeyValuesToBind
             [Int64 (if lcAppendedElements (GetListChange c colName) \<noteq> None
                     then timestamp - 1 else timestamp)] keyColumns c)]
       else [])"
    define setStr where "setStr =
      ''UPDATE '' @ tableName r @ '' USING TTL ? SET '' @ colName @
      ''[SCYLLA_TIMEUUID_LIST_INDEX(?)] = '' @ makeBindMarkerForType ty @
      '' WHERE '' @ pkConditions"
    define rem where "rem =
      (case lcRemovedElements (GetListChange c colName) of
         None \<Rightarrow> []
       | Some ks \<Rightarrow>
           map (\<lambda>k. (''UPDATE '' @ tableName r @ '' SET '' @ colName @
                      ''[SCYLLA_TIMEUUID_LIST_INDEX(?)] = null WHERE '' @ pkConditions,
                      appendKeyValuesToBind [k] keyColumns c)) ks)"
    have unfolded: "listColumnQueries r timestamp c keyColumns pkConditions colName ty =
      (case (case lcAppendedElements (GetListChange c colName) of
               None \<Rightarrow> Inr b0
             | Some cells \<Rightarrow> appendedElementQueries setStr c keyColumns ty cells b0) of
         Inl f \<Rightarrow> Inl f
       | Inr batch \<Rightarrow> Inr (batch @ rem))"
      unfolding listColumnQueries_def Let_def b0_def setStr_def rem_def
      by (simp split: option.splits sum.splits)
    have b0: "\<forall>e \<in> set b0. mutationStmt (fst e)"
      by (simp add: b0_def mutationStmt_def)
    have s: "mutationStmt setStr"
      by (simp add: setStr_def mutationStmt_def)
    have rm: "\<forall>e \<in> set rem. mutationStmt (fst e)"
      by (auto simp: rem_def mutationStmt_def split: option.splits)
    from l [unfolded unfolded] obtain b1 where
      b1: "(case lcAppendedElements (GetListChange c colName) of
               None \<Rightarrow> Inr b0
             | Some cells \<Rightarrow> appendedElementQueries setStr c keyColumns ty cells b0) = Inr b1"
      and qs: "qs = b1 @ rem"
      by (auto split: sum.splits)
    have "\<forall>e \<in> set b1. mutationStmt (fst e)"
    proof (cases "lcAppendedElements (GetListChange c colName)")
      case None
      with b1 b0 show ?thesis by auto
    next
      case (Some cells)
      with b1 have "appendedElementQueries setStr c keyColumns ty cells b0 = Inr b1"
        by simp
      from appendedElementQueries_stmts [OF this s b0] show ?thesis .
    qed
    with rm show ?thesis
      unfolding qs by auto
  qed
  have setmap: "\<forall>e \<in> set (setOrMapColumnQueries r c keyColumns pkConditions colName ty).
                  mutationStmt (fst e)"
    by (auto simp: setOrMapColumnQueries_def Let_def mutationStmt_def split: if_splits)
  have udt: "\<forall>e \<in> set qs. mutationStmt (fst e)"
    if u: "udtColumnQueries r c keyColumns pkConditions colName ty = Inr qs"
  proof (cases "udtIsReset (GetUDTChange c colName)")
    case True
    with u show ?thesis
      by (auto simp: udtColumnQueries_def Let_def mutationStmt_def split: sum.splits)
  next
    case False
    with u obtain els where
      "udtFieldQueries r c keyColumns pkConditions colName ty els [] = Inr qs"
      by (auto simp: udtColumnQueries_def Let_def split: sum.splits)
    from udtFieldQueries_stmts [OF this] show ?thesis by simp
  qed
  from assms show ?thesis
    using scalar lst setmap udt
    by (auto simp: columnQueries_def columnType_def ty Let_def split: if_splits)
qed

lemma columnEntries_stmts: "\<forall>e \<in> set (columnEntries r timestamp c colName). mutationStmt (fst e)"
proof (cases "columnQueries r timestamp c (keyColumnsOf r) (whereKeys r) colName")
  case (Inl f)
  then show ?thesis by (simp add: columnEntries_def)
next
  case (Inr qs)
  from columnQueries_stmts [OF this] Inr show ?thesis
    by (simp add: columnEntries_def)
qed

lemmas example_eval =
  buildBatch_def go_append_def elems_def exampleReplicator_def exampleMeta_def
  insertMarkerQueries_def makeBindMarkerAssignments_def columnType_def
  makeBindMarkerForType_def columnQueries_def scalarColumnQueries_def listColumnQueries_def
  setOrMapColumnQueries_def appendValueByType_def GetValue_def GetTTL_def keyRow_def
  noScalarChange_def Let_def

lemma example_insert_batch:
  "buildBatch exampleReplicator timestamp True exampleInsert =
     (exampleReplicator,
      Inr [(''INSERT INTO ks.t (id, seq) VALUES (?, ?) USING TTL ?'',
            [IntV 1, IntV 1, Int64 100]),
           (''UPDATE ks.t USING TTL ? SET val = ? WHERE id = ? AND seq = ?'',
            [Int64 100, IntV 5, IntV 1, IntV 1])])"
  by (simp add: example_eval exampleInsert_def)

lemma example_update_batch:
  "buildBatch exampleReplicator timestamp False exampleInsert =
     (exampleReplicator,
      Inr [(''UPDATE ks.t USING TTL ? SET val = ? WHERE id = ? AND seq = ?'',
            [Int64 100, IntV 5, IntV 1, IntV 1])])"
  by (simp add: example_eval exampleInsert_def)

lemma example_val_delete_batch:
  "buildBatch exampleReplicator timestamp False exampleValDelete =
     (exampleReplicator,
      Inr [(''DELETE val FROM ks.t WHERE id = ? AND seq = ?'', [IntV 1, IntV 1])])"
  by (simp add: example_eval exampleValDelete_def)

lemma example_tags_batch:
  "buildBatch exampleReplicator timestamp False exampleTagsUpdate =
     (exampleReplicator,
      Inr [(''UPDATE ks.t USING TTL ? SET tags = tags + ? WHERE id = ? AND seq = ?'',
            [Int64 0, SliceV [TextV ''a''], IntV 1, IntV 1]),
           (''UPDATE ks.t USING TTL ? SET tags = tags - ? WHERE id = ? AND seq = ?'',
            [Int64 0, SliceV [TextV ''b''], IntV 1, IntV 1])])"
  by (simp add: example_eval exampleTagsUpdate_def)

lemma example_items_batch:
  "buildBatch exampleReplicator timestamp False exampleItemsReset =
     (exampleReplicator,
      Inr [(''DELETE items FROM ks.t USING TIMESTAMP ? WHERE id = ? AND seq = ?'',
            [Int64 (timestamp - 1), IntV 1, IntV 1]),
           (''UPDATE ks.t USING TTL ? SET items[SCYLLA_TIMEUUID_LIST_INDEX(?)] = ? WHERE id = ? AND seq = ?'',
            [Int64 0, TextV ''K1'', TextV ''x'', IntV 1, IntV 1])])"
  by (simp add: example_eval exampleItemsReset_def)

lemma processInsertOrUpdate_built:
  assumes "buildBatch r timestamp isInsert c = (r', Inr batch)"
  shows "processInsertOrUpdate r sess log timestamp isInsert c =
         execute r' sess log (ExecuteBatch batch (consistency r) timestamp)"
  using assms buildBatch_Inr(1) [OF assms]
  by (simp add: processInsertOrUpdate_def)

text \<open>
  Claim C3, amended. In an insert or update event whose batch is built, a non-frozen list
  column with \<open>isReset\<close> contributes, in this order: the clear statement
  \<open>DELETE col FROM T USING TIMESTAMP ? WHERE keys\<close> bound to the event timestamp minus
  one (in \<open>int64\<close>) when the appended cells of the change are not nil, also when they
  are an empty map, and to the event timestamp when they are nil; then one \<open>UPDATE\<close>
  per appended cell; then one per removed cell. The append statements carry no timestamp
  of their own, and the batch is executed at the event timestamp. Unless the appended
  cells are an empty map that is not nil, the timestamp of the clear statement is the one
  the specification gives.
\<close>

theorem list_reset_clear_statement:
  assumes "buildBatch r timestamp isInsert c = (r', Inr batch)"
    and "i < length (otherColumns r)" and "otherColumns r ! i = colName"
    and "columnTypes r colName = Some ty" and "\<not> IsFrozen ty" and "Type_of ty = TypeList"
    and "lcIsReset (GetListChange c colName)"
  shows "batch = entriesBefore r timestamp isInsert c i @
                 columnEntries r timestamp c colName @
                 entriesAfter r timestamp c i \<and>
         columnEntries r timestamp c colName =
           (clearListStmt r colName,
            Int64 (if lcAppendedElements (GetListChange c colName) \<noteq> None
                   then timestamp - 1 else timestamp) # keyValues r c) #
           (case lcAppendedElements (GetListChange c colName) of
              None \<Rightarrow> []
            | Some cells \<Rightarrow>
                map (\<lambda>(k, v). (appendCellStmt r colName, [GetTTL c, k, v] @ keyValues r c))
                  cells) @
           (case lcRemovedElements (GetListChange c colName) of
              None \<Rightarrow> []
            | Some ks \<Rightarrow> map (\<lambda>k. (removeCellStmt r colName, k # keyValues r c)) ks) \<and>
         processInsertOrUpdate r sess log timestamp isInsert c =
           execute r' sess log (ExecuteBatch batch (consistency r) timestamp) \<and>
         (lcAppendedElements (GetListChange c colName) \<noteq> Some [] \<longrightarrow>
            (if lcAppendedElements (GetListChange c colName) \<noteq> None
             then timestamp - 1 else timestamp) =
            specClearTimestamp timestamp (GetListChange c colName))"
proof -
  have agree: "lcAppendedElements (GetListChange c colName) \<noteq> Some [] \<longrightarrow>
            (if lcAppendedElements (GetListChange c colName) \<noteq> None
             then timestamp - 1 else timestamp) =
            specClearTimestamp timestamp (GetListChange c colName)"
    by (simp add: specClearTimestamp_def hasAppendedCells_def split: option.splits)
  have mem: "colName \<in> set (otherColumns r)"
    using assms(2,3) nth_mem by blast
  have split: "batch = entriesBefore r timestamp isInsert c i @
                 columnEntries r timestamp c colName @
                 entriesAfter r timestamp c i"
    using batch_column_split [OF assms(1,2)] assms(3) by simp
  have "Inr (columnEntries r timestamp c colName) =
        columnQueries r timestamp c (keyColumnsOf r) (whereKeys r) colName"
    using columnEntries_built [OF assms(1) mem] by simp
  also note list_column_entries [OF assms(4-6)]
  finally have col: "columnEntries r timestamp c colName =
           (clearListStmt r colName,
            Int64 (if lcAppendedElements (GetListChange c colName) \<noteq> None
                   then timestamp - 1 else timestamp) # keyValues r c) #
           (case lcAppendedElements (GetListChange c colName) of
              None \<Rightarrow> []
            | Some cells \<Rightarrow>
                map (\<lambda>(k, v). (appendCellStmt r colName, [GetTTL c, k, v] @ keyValues r c))
                  cells) @
           (case lcRemovedElements (GetListChange c colName) of
              None \<Rightarrow> []
            | Some ks \<Rightarrow> map (\<lambda>k. (removeCellStmt r colName, k # keyValues r c)) ks)"
    using assms(7) by simp
  show ?thesis
    by (intro conjI split col processInsertOrUpdate_built [OF assms(1)] agree)
qed

theorem list_reset_clear_statement_witness:
  "buildBatch exampleReplicator 1000 False exampleItemsReset =
     (exampleReplicator,
      Inr [(''DELETE items FROM ks.t USING TIMESTAMP ? WHERE id = ? AND seq = ?'',
            [Int64 999, IntV 1, IntV 1]),
           (''UPDATE ks.t USING TTL ? SET items[SCYLLA_TIMEUUID_LIST_INDEX(?)] = ? WHERE id = ? AND seq = ?'',
            [Int64 0, TextV ''K1'', TextV ''x'', IntV 1, IntV 1])]) \<and>
   otherColumns exampleReplicator ! 2 = ''items'' \<and>
   columnTypes exampleReplicator ''items'' = Some (ListType (NativeType ''text'')) \<and>
   lcIsReset (GetListChange exampleItemsReset ''items'') \<and>
   columnEntries exampleReplicator 1000 exampleItemsReset ''items'' =
     [(clearListStmt exampleReplicator ''items'',
       Int64 999 # keyValues exampleReplicator exampleItemsReset),
      (appendCellStmt exampleReplicator ''items'',
       [GetTTL exampleItemsReset, TextV ''K1'', TextV ''x''] @
       keyValues exampleReplicator exampleItemsReset)] \<and>
   processInsertOrUpdate exampleReplicator okSession [] 1000 False exampleItemsReset =
     execute exampleReplicator okSession []
       (ExecuteBatch
          [(''DELETE items FROM ks.t USING TIMESTAMP ? WHERE id = ? AND seq = ?'',
            [Int64 999, IntV 1, IntV 1]),
           (''UPDATE ks.t USING TTL ? SET items[SCYLLA_TIMEUUID_LIST_INDEX(?)] = ? WHERE id = ? AND seq = ?'',
            [Int64 0, TextV ''K1'', TextV ''x'', IntV 1, IntV 1])]
          ConsistencyOne 1000)"
proof -
  have b: "buildBatch exampleReplicator 1000 False exampleItemsReset =
     (exampleReplicator,
      Inr [(''DELETE items FROM ks.t USING TIMESTAMP ? WHERE id = ? AND seq = ?'',
            [Int64 999, IntV 1, IntV 1]),
           (''UPDATE ks.t USING TTL ? SET items[SCYLLA_TIMEUUID_LIST_INDEX(?)] = ? WHERE id = ? AND seq = ?'',
            [Int64 0, TextV ''K1'', TextV ''x'', IntV 1, IntV 1])])"
    using example_items_batch [of 1000] by simp
  have h: "2 < length (otherColumns exampleReplicator)"
    "otherColumns exampleReplicator ! 2 = ''items''"
    "columnTypes exampleReplicator ''items'' = Some (ListType (NativeType ''text''))"
    "\<not> IsFrozen (ListType (NativeType ''text''))"
    "Type_of (ListType (NativeType ''text'')) = TypeList"
    "lcIsReset (GetListChange exampleItemsReset ''items'')"
    by (simp_all add: exampleReplicator_def exampleMeta_def exampleItemsReset_def keyRow_def)
  have c: "consistency exampleReplicator = ConsistencyOne"
    by (simp add: exampleReplicator_def)
  from list_reset_clear_statement [OF b h, of okSession "[]"] b h(2,3,6) c
  show ?thesis
    by (simp add: exampleItemsReset_def keyRow_def)
qed

text \<open>
  Claim C3 as stated fails for a reset whose appended cells are an empty map that is not
  nil: the event contains no appended cell and no append statement is built, yet the
  clear statement is bound to the event timestamp minus one.
\<close>

theorem list_reset_clear_statement_counterexample:
  "lcIsReset (GetListChange emptyAppendReset ''items'') \<and>
   \<not> hasAppendedCells (GetListChange emptyAppendReset ''items'') \<and>
   specClearTimestamp 1000 (GetListChange emptyAppendReset ''items'') = 1000 \<and>
   processUpdate exampleReplicator okSession [] 1000 emptyAppendReset =
     (None, exampleReplicator,
      [ExecuteBatch
         [(''DELETE items FROM ks.t USING TIMESTAMP ? WHERE id = ? AND seq = ?'',
           [Int64 999, IntV 1, IntV 1])]
         ConsistencyOne 1000])"
  by (simp add: processUpdate_def processInsertOrUpdate_def example_eval emptyAppendReset_def
      specClearTimestamp_def hasAppendedCells_def execute_def okSession_def)

lemma insertMarker_stmt: "\<not> mutationStmt (fst (insertMarker r c))"
  by (simp add: insertMarker_def mutationStmt_def)

lemma buildBatch_insert_update:
  "buildBatch r timestamp True c = (r', Inr batch) \<longleftrightarrow>
   (\<exists>mutations. buildBatch r timestamp False c = (r', Inr mutations) \<and>
                 batch = insertMarker r c # mutations)"
proof
  assume ins: "buildBatch r timestamp True c = (r', Inr batch)"
  note b = buildBatch_Inr [OF ins]
  have "buildBatch r timestamp False c =
        (r', Inr (concat (map (columnEntries r timestamp c) (otherColumns r))))"
    using buildBatch_ok [OF b(2,3), of False] b(1) by simp
  with b(4) show "\<exists>mutations. buildBatch r timestamp False c = (r', Inr mutations) \<and>
                 batch = insertMarker r c # mutations"
    by simp
next
  assume "\<exists>mutations. buildBatch r timestamp False c = (r', Inr mutations) \<and>
                 batch = insertMarker r c # mutations"
  then obtain mutations where
    upd: "buildBatch r timestamp False c = (r', Inr mutations)"
    and batch: "batch = insertMarker r c # mutations"
    by blast
  note b = buildBatch_Inr [OF upd]
  show "buildBatch r timestamp True c = (r', Inr batch)"
    using buildBatch_ok [OF b(2,3), of True] b(1,4) batch by simp
qed

text \<open>
  Claim C4. The batch of an Insert event is built exactly when the batch of the same
  row taken as an Update is built, and it is the row-marker statement
  \<open>INSERT INTO T (key columns) VALUES (markers) USING TTL ?\<close>, bound to the key
  values followed by the TTL, in front of the Update's batch. The Update's batch is the
  per-column mutations in column order; each of its statements is an \<open>UPDATE\<close> or a
  \<open>DELETE\<close>, none is the marker insert.
\<close>

theorem insert_row_marker:
  "(buildBatch r timestamp True c = (r', Inr batch) \<longleftrightarrow>
    (\<exists>mutations. buildBatch r timestamp False c = (r', Inr mutations) \<and>
                  batch = insertMarker r c # mutations)) \<and>
   (buildBatch r timestamp False c = (r', Inr mutations) \<longrightarrow>
    mutations = concat (map (columnEntries r timestamp c) (otherColumns r)) \<and>
    (\<forall>e \<in> set mutations. mutationStmt (fst e) \<and> fst e \<noteq> fst (insertMarker r c)) \<and>
    processInsert r sess log timestamp c =
      execute r' sess log
        (ExecuteBatch (insertMarker r c # mutations) (consistency r) timestamp) \<and>
    processUpdate r sess log timestamp c =
      execute r' sess log (ExecuteBatch mutations (consistency r) timestamp)) \<and>
   insertMarker r c =
     (''INSERT INTO '' @ tableName r @ '' ('' @ Join (keyColumnsOf r) '', '' @
      '') VALUES ('' @ Join (map (bindMarker r) (keyColumnsOf r)) '', '' @ '') USING TTL ?'',
      map (keyValue c) (keyColumnsOf r) @ [GetTTL c])"
proof (intro conjI impI)
  show "buildBatch r timestamp True c = (r', Inr batch) \<longleftrightarrow>
    (\<exists>mutations. buildBatch r timestamp False c = (r', Inr mutations) \<and>
                  batch = insertMarker r c # mutations)"
    by (rule buildBatch_insert_update)
next
  assume upd: "buildBatch r timestamp False c = (r', Inr mutations)"
  show m: "mutations = concat (map (columnEntries r timestamp c) (otherColumns r))"
    using buildBatch_Inr(4) [OF upd] by simp
  have all: "\<forall>e \<in> set mutations. mutationStmt (fst e)"
    unfolding m using columnEntries_stmts by auto
  then show "\<forall>e \<in> set mutations. mutationStmt (fst e) \<and> fst e \<noteq> fst (insertMarker r c)"
    using insertMarker_stmt [of r c] by auto
  have ins: "buildBatch r timestamp True c = (r', Inr (insertMarker r c # mutations))"
    using buildBatch_insert_update [of r timestamp c r' "insertMarker r c # mutations"] upd
    by simp
  show "processInsert r sess log timestamp c =
      execute r' sess log
        (ExecuteBatch (insertMarker r c # mutations) (consistency r) timestamp)"
    unfolding processInsert_def by (rule processInsertOrUpdate_built [OF ins])
  show "processUpdate r sess log timestamp c =
      execute r' sess log (ExecuteBatch mutations (consistency r) timestamp)"
    unfolding processUpdate_def by (rule processInsertOrUpdate_built [OF upd])
next
  show "insertMarker r c =
     (''INSERT INTO '' @ tableName r @ '' ('' @ Join (keyColumnsOf r) '', '' @
      '') VALUES ('' @ Join (map (bindMarker r) (keyColumnsOf r)) '', '' @ '') USING TTL ?'',
      map (keyValue c) (keyColumnsOf r) @ [GetTTL c])"
    by (simp add: insertMarker_def keyValues_def)
qed

theorem insert_row_marker_witness:
  "buildBatch exampleReplicator 1000 False exampleInsert =
     (exampleReplicator,
      Inr [(''UPDATE ks.t USING TTL ? SET val = ? WHERE id = ? AND seq = ?'',
            [Int64 100, IntV 5, IntV 1, IntV 1])]) \<and>
   buildBatch exampleReplicator 1000 True exampleInsert =
     (exampleReplicator,
      Inr [(''INSERT INTO ks.t (id, seq) VALUES (?, ?) USING TTL ?'',
            [IntV 1, IntV 1, Int64 100]),
           (''UPDATE ks.t USING TTL ? SET val = ? WHERE id = ? AND seq = ?'',
            [Int64 100, IntV 5, IntV 1, IntV 1])]) \<and>
   processInsert exampleReplicator okSession [] 1000 exampleInsert =
     execute exampleReplicator okSession []
       (ExecuteBatch
          [insertMarker exampleReplicator exampleInsert,
           (''UPDATE ks.t USING TTL ? SET val = ? WHERE id = ? AND seq = ?'',
            [Int64 100, IntV 5, IntV 1, IntV 1])]
          ConsistencyOne 1000)"
proof -
  note u = example_update_batch [of 1000]
  have c: "consistency exampleReplicator = ConsistencyOne"
    by (simp add: exampleReplicator_def)
  from insert_row_marker [of exampleReplicator 1000 exampleInsert exampleReplicator _
      "[(''UPDATE ks.t USING TTL ? SET val = ? WHERE id = ? AND seq = ?'',
         [Int64 100, IntV 5, IntV 1, IntV 1])]" okSession "[]"] u
  have "processInsert exampleReplicator okSession [] 1000 exampleInsert =
     execute exampleReplicator okSession []
       (ExecuteBatch
          [insertMarker exampleReplicator exampleInsert,
           (''UPDATE ks.t USING TTL ? SET val = ? WHERE id = ? AND seq = ?'',
            [Int64 100, IntV 5, IntV 1, IntV 1])]
          (consistency exampleReplicator) 1000)"
    by blast
  with u example_insert_batch [of 1000] c show ?thesis
    by simp
qed

text \<open>A change of one insert or update event: \<open>Consume\<close> is the translation of that event.\<close>

lemma Consume_single_insert_update:
  "GetOperation c = (if isInsert then Insert else Update) \<Longrightarrow>
   Consume r sess log \<lparr>CassandraTimestamp = timestamp, Delta = [c]\<rparr> =
   processInsertOrUpdate r sess log timestamp isInsert c"
proof -
  assume op: "GetOperation c = (if isInsert then Insert else Update)"
  obtain err r' log' where p: "processInsertOrUpdate r sess log timestamp isInsert c = (err, r', log')"
    by (cases "processInsertOrUpdate r sess log timestamp isInsert c")
  have rest: "consumeFrom r' sess log' timestamp [c] 1 = (None, r', log')"
    by (subst consumeFrom.simps) simp
  show ?thesis
  proof (cases isInsert)
    case True
    with op p rest show ?thesis
      unfolding Consume_def
      by (subst consumeFrom.simps)
         (simp add: processUpdate_def processInsert_def Let_def op_defs del: consumeFrom.simps)
  next
    case False
    with op p rest show ?thesis
      unfolding Consume_def
      by (subst consumeFrom.simps)
         (simp add: processUpdate_def processInsert_def Let_def op_defs del: consumeFrom.simps)
  qed
qed

text \<open>
  Claim C5, amended. In an insert or update event whose batch is built, a non-frozen set
  or map column contributes: with \<open>isReset\<close>, exactly the one statement
  \<open>SET col = ?\<close> bound to the full replacement value; without it, the statement
  \<open>SET col = col + ?\<close> exactly when the added elements are not nil, also when they
  are empty, followed by the statement \<open>SET col = col - ?\<close> exactly when the removed
  elements are not nil, and no overwrite of the whole column. The batch with these
  statements is the one that \<open>processInsertOrUpdate\<close> executes, at the event
  timestamp.
\<close>

theorem set_map_column_statements:
  assumes "buildBatch r timestamp isInsert c = (r', Inr batch)"
    and "i < length (otherColumns r)" and "otherColumns r ! i = colName"
    and "columnTypes r colName = Some ty" and "\<not> IsFrozen ty"
    and "Type_of ty = TypeSet \<or> Type_of ty = TypeMap"
  shows "batch = entriesBefore r timestamp isInsert c i @
                 columnEntries r timestamp c colName @
                 entriesAfter r timestamp c i \<and>
         columnEntries r timestamp c colName =
           (if IsReset (GetSetChange c colName) then
              [(setColumnStmt r colName,
                [GetTTL c, AddedElements (GetSetChange c colName)] @ keyValues r c)]
            else
              (if AddedElements (GetSetChange c colName) \<noteq> VNil then
                 [(addToColumnStmt r colName,
                   [GetTTL c, AddedElements (GetSetChange c colName)] @ keyValues r c)]
               else []) @
              (if RemovedElements (GetSetChange c colName) \<noteq> VNil then
                 [(removeFromColumnStmt r colName,
                   [GetTTL c, RemovedElements (GetSetChange c colName)] @ keyValues r c)]
               else [])) \<and>
         processInsertOrUpdate r sess log timestamp isInsert c =
           execute r' sess log (ExecuteBatch batch (consistency r) timestamp) \<and>
         (GetOperation c = (if isInsert then Insert else Update) \<longrightarrow>
            Consume r sess log \<lparr>CassandraTimestamp = timestamp, Delta = [c]\<rparr> =
              execute r' sess log (ExecuteBatch batch (consistency r) timestamp))"
proof -
  have mem: "colName \<in> set (otherColumns r)"
    using assms(2,3) nth_mem by blast
  have split: "batch = entriesBefore r timestamp isInsert c i @
                 columnEntries r timestamp c colName @
                 entriesAfter r timestamp c i"
    using batch_column_split [OF assms(1,2)] assms(3) by simp
  have "Inr (columnEntries r timestamp c colName) =
        columnQueries r timestamp c (keyColumnsOf r) (whereKeys r) colName"
    using columnEntries_built [OF assms(1) mem] by simp
  also note set_or_map_column_entries [OF assms(4-6)]
  finally have col: "columnEntries r timestamp c colName =
           (if IsReset (GetSetChange c colName) then
              [(setColumnStmt r colName,
                [GetTTL c, AddedElements (GetSetChange c colName)] @ keyValues r c)]
            else
              (if AddedElements (GetSetChange c colName) \<noteq> VNil then
                 [(addToColumnStmt r colName,
                   [GetTTL c, AddedElements (GetSetChange c colName)] @ keyValues r c)]
               else []) @
              (if RemovedElements (GetSetChange c colName) \<noteq> VNil then
                 [(removeFromColumnStmt r colName,
                   [GetTTL c, RemovedElements (GetSetChange c colName)] @ keyValues r c)]
               else []))"
    by simp
  note run = processInsertOrUpdate_built [OF assms(1), of sess log]
  have one: "GetOperation c = (if isInsert then Insert else Update) \<longrightarrow>
            Consume r sess log \<lparr>CassandraTimestamp = timestamp, Delta = [c]\<rparr> =
              execute r' sess log (ExecuteBatch batch (consistency r) timestamp)"
    using run by (simp add: Consume_single_insert_update)
  show ?thesis
    by (intro conjI split col run one)
qed

theorem set_map_column_statements_witness:
  "buildBatch exampleReplicator 1000 False exampleTagsUpdate =
     (exampleReplicator,
      Inr [(''UPDATE ks.t USING TTL ? SET tags = tags + ? WHERE id = ? AND seq = ?'',
            [Int64 0, SliceV [TextV ''a''], IntV 1, IntV 1]),
           (''UPDATE ks.t USING TTL ? SET tags = tags - ? WHERE id = ? AND seq = ?'',
            [Int64 0, SliceV [TextV ''b''], IntV 1, IntV 1])]) \<and>
   otherColumns exampleReplicator ! 1 = ''tags'' \<and>
   columnTypes exampleReplicator ''tags'' = Some (SetType (NativeType ''text'')) \<and>
   columnEntries exampleReplicator 1000 exampleTagsUpdate ''tags'' =
     [(addToColumnStmt exampleReplicator ''tags'',
       [GetTTL exampleTagsUpdate, SliceV [TextV ''a'']] @
       keyValues exampleReplicator exampleTagsUpdate),
      (removeFromColumnStmt exampleReplicator ''tags'',
       [GetTTL exampleTagsUpdate, SliceV [TextV ''b'']] @
       keyValues exampleReplicator exampleTagsUpdate)] \<and>
   Consume exampleReplicator okSession []
     \<lparr>CassandraTimestamp = 1000, Delta = [exampleTagsUpdate]\<rparr> =
     (None, exampleReplicator,
      [ExecuteBatch
         [(''UPDATE ks.t USING TTL ? SET tags = tags + ? WHERE id = ? AND seq = ?'',
           [Int64 0, SliceV [TextV ''a''], IntV 1, IntV 1]),
          (''UPDATE ks.t USING TTL ? SET tags = tags - ? WHERE id = ? AND seq = ?'',
           [Int64 0, SliceV [TextV ''b''], IntV 1, IntV 1])]
         ConsistencyOne 1000])"
proof -
  note b = example_tags_batch [of 1000]
  have c: "consistency exampleReplicator = ConsistencyOne"
    "GetOperation exampleTagsUpdate = Update"
    by (simp_all add: exampleReplicator_def exampleTagsUpdate_def keyRow_def GetOperation_def)
  have h: "1 < length (otherColumns exampleReplicator)"
    "otherColumns exampleReplicator ! 1 = ''tags''"
    "columnTypes exampleReplicator ''tags'' = Some (SetType (NativeType ''text''))"
    "\<not> IsFrozen (SetType (NativeType ''text''))"
    "Type_of (SetType (NativeType ''text'')) = TypeSet \<or>
     Type_of (SetType (NativeType ''text'')) = TypeMap"
    by (simp_all add: exampleReplicator_def exampleMeta_def)
  from set_map_column_statements [OF b h, of okSession "[]"] b h(2,3) c
  show ?thesis
    by (simp add: exampleTagsUpdate_def keyRow_def execute_def okSession_def)
qed

text \<open>
  Claim C5 as stated fails for a change whose added and removed elements are empty and
  not nil: both statements are built and executed, each bound to the empty value.
\<close>

theorem set_map_column_statements_counterexample:
  "\<not> IsReset (GetSetChange emptyTagsUpdate ''tags'') \<and>
   \<not> hasElements (AddedElements (GetSetChange emptyTagsUpdate ''tags'')) \<and>
   \<not> hasElements (RemovedElements (GetSetChange emptyTagsUpdate ''tags'')) \<and>
   processUpdate exampleReplicator okSession [] 1000 emptyTagsUpdate =
     (None, exampleReplicator,
      [ExecuteBatch
         [(''UPDATE ks.t USING TTL ? SET tags = tags + ? WHERE id = ? AND seq = ?'',
           [Int64 0, SliceV [], IntV 1, IntV 1]),
          (''UPDATE ks.t USING TTL ? SET tags = tags - ? WHERE id = ? AND seq = ?'',
           [Int64 0, SliceV [], IntV 1, IntV 1])]
         ConsistencyOne 1000])"
  by (simp add: processUpdate_def processInsertOrUpdate_def example_eval emptyTagsUpdate_def
      execute_def okSession_def)

text \<open>
  Claim C6. In an insert or update event whose batch is built, a regular column whose
  type is a scalar, a frozen container or a frozen UDT contributes exactly one statement
  \<open>DELETE col FROM T WHERE keys\<close> when its change is marked deleted; otherwise exactly
  one statement \<open>UPDATE T USING TTL ? SET col = ? WHERE keys\<close> when a replacement value
  is present; otherwise nothing. The batch with these statements is the one that
  \<open>processInsertOrUpdate\<close> executes, and so \<open>Consume\<close> for a change of that one
  event. For the example table, an Update whose only change is the deletion of
  \<open>val\<close> executes a batch of exactly that one statement.
\<close>

theorem scalar_column_statements:
  assumes "buildBatch r timestamp isInsert c = (r', Inr batch)"
    and "i < length (otherColumns r)" and "otherColumns r ! i = colName"
    and "columnTypes r colName = Some ty" and "scalarLike ty"
  shows "batch = entriesBefore r timestamp isInsert c i @
                 columnEntries r timestamp c colName @
                 entriesAfter r timestamp c i \<and>
         columnEntries r timestamp c colName =
           (if IsDeleted (GetScalarChange c colName) then
              [(deleteColumnStmt r colName, keyValues r c)]
            else if Value (GetScalarChange c colName) \<noteq> VNil then
              [(setColumnStmt r colName,
                [GetTTL c, Value (GetScalarChange c colName)] @ keyValues r c)]
            else []) \<and>
         buildBatch exampleReplicator timestamp False exampleValDelete =
           (exampleReplicator,
            Inr [(''DELETE val FROM ks.t WHERE id = ? AND seq = ?'', [IntV 1, IntV 1])]) \<and>
         processInsertOrUpdate r sess log timestamp isInsert c =
           execute r' sess log (ExecuteBatch batch (consistency r) timestamp) \<and>
         (GetOperation c = (if isInsert then Insert else Update) \<longrightarrow>
            Consume r sess log \<lparr>CassandraTimestamp = timestamp, Delta = [c]\<rparr> =
              execute r' sess log (ExecuteBatch batch (consistency r) timestamp)) \<and>
         Consume exampleReplicator sess log
           \<lparr>CassandraTimestamp = timestamp, Delta = [exampleValDelete]\<rparr> =
           execute exampleReplicator sess log
             (ExecuteBatch
                [(''DELETE val FROM ks.t WHERE id = ? AND seq = ?'', [IntV 1, IntV 1])]
                ConsistencyOne timestamp)"
proof -
  have mem: "colName \<in> set (otherColumns r)"
    using assms(2,3) nth_mem by blast
  have split: "batch = entriesBefore r timestamp isInsert c i @
                 columnEntries r timestamp c colName @
                 entriesAfter r timestamp c i"
    using batch_column_split [OF assms(1,2)] assms(3) by simp
  have "Inr (columnEntries r timestamp c colName) =
        columnQueries r timestamp c (keyColumnsOf r) (whereKeys r) colName"
    using columnEntries_built [OF assms(1) mem] by simp
  also note scalar_column_entries [OF assms(4,5)]
  finally have col: "columnEntries r timestamp c colName =
           (if IsDeleted (GetScalarChange c colName) then
              [(deleteColumnStmt r colName, keyValues r c)]
            else if Value (GetScalarChange c colName) \<noteq> VNil then
              [(setColumnStmt r colName,
                [GetTTL c, Value (GetScalarChange c colName)] @ keyValues r c)]
            else [])"
    by simp
  note run = processInsertOrUpdate_built [OF assms(1), of sess log]
  have one: "GetOperation c = (if isInsert then Insert else Update) \<longrightarrow>
            Consume r sess log \<lparr>CassandraTimestamp = timestamp, Delta = [c]\<rparr> =
              execute r' sess log (ExecuteBatch batch (consistency r) timestamp)"
    using run by (simp add: Consume_single_insert_update)
  have ex: "Consume exampleReplicator sess log
           \<lparr>CassandraTimestamp = timestamp, Delta = [exampleValDelete]\<rparr> =
           execute exampleReplicator sess log
             (ExecuteBatch
                [(''DELETE val FROM ks.t WHERE id = ? AND seq = ?'', [IntV 1, IntV 1])]
                ConsistencyOne timestamp)"
  proof -
    have opx: "GetOperation exampleValDelete = (if False then Insert else Update)"
      by (simp add: exampleValDelete_def keyRow_def GetOperation_def)
    have cx: "consistency exampleReplicator = ConsistencyOne"
      by (simp add: exampleReplicator_def)
    show ?thesis
      using processInsertOrUpdate_built [OF example_val_delete_batch, of sess log timestamp]
      by (simp only: Consume_single_insert_update [OF opx] cx)
  qed
  show ?thesis
    by (intro conjI split col example_val_delete_batch run one ex)
qed

theorem scalar_column_statements_witness:
  "buildBatch exampleReplicator 1000 False exampleValDelete =
     (exampleReplicator,
      Inr [(''DELETE val FROM ks.t WHERE id = ? AND seq = ?'', [IntV 1, IntV 1])]) \<and>
   otherColumns exampleReplicator ! 0 = ''val'' \<and>
   columnTypes exampleReplicator ''val'' = Some (NativeType ''int'') \<and>
   scalarLike (NativeType ''int'') \<and>
   columnEntries exampleReplicator 1000 exampleValDelete ''val'' =
     [(deleteColumnStmt exampleReplicator ''val'',
       keyValues exampleReplicator exampleValDelete)] \<and>
   Consume exampleReplicator okSession []
     \<lparr>CassandraTimestamp = 1000, Delta = [exampleValDelete]\<rparr> =
     (None, exampleReplicator,
      [ExecuteBatch [(''DELETE val FROM ks.t WHERE id = ? AND seq = ?'', [IntV 1, IntV 1])]
         ConsistencyOne 1000])"
proof -
  note b = example_val_delete_batch [of 1000]
  have c: "consistency exampleReplicator = ConsistencyOne"
    "GetOperation exampleValDelete = Update"
    by (simp_all add: exampleReplicator_def exampleValDelete_def keyRow_def GetOperation_def)
  have h: "0 < length (otherColumns exampleReplicator)"
    "otherColumns exampleReplicator ! 0 = ''val''"
    "columnTypes exampleReplicator ''val'' = Some (NativeType ''int'')"
    "scalarLike (NativeType ''int'')"
    by (simp_all add: exampleReplicator_def exampleMeta_def scalarLike_def)
  from scalar_column_statements [OF b h, of okSession "[]"] b h(2-4) c
  show ?thesis
    by (simp add: exampleValDelete_def keyRow_def execute_def okSession_def)
qed

section \<open>Properties of the consumer factory\<close>

lemma cutAtDot_None: "cutAtDot s = None \<longleftrightarrow> CHR ''.'' \<notin> set s"
  by (induction s) (auto split: option.splits)

lemma cutAtDot_Some:
  "cutAtDot s = Some (before, after) \<Longrightarrow>
   before = takeWhile (\<lambda>ch. ch \<noteq> CHR ''.'') s \<and>
   after = drop 1 (dropWhile (\<lambda>ch. ch \<noteq> CHR ''.'') s)"
  by (induction s arbitrary: before after) (auto split: option.splits if_splits)

lemma SplitN2_unqualified: "\<not> isQualified name \<Longrightarrow> SplitN2 name = [name]"
  by (simp add: SplitN2_def isQualified_def cutAtDot_None [symmetric])

lemma SplitN2_qualified: "isQualified name \<Longrightarrow> SplitN2 name = [keyspaceOf name, tableOf name]"
proof -
  assume "isQualified name"
  then obtain before after where c: "cutAtDot name = Some (before, after)"
    using cutAtDot_None [of name] by (auto simp: isQualified_def)
  from cutAtDot_Some [OF c] c show ?thesis
    by (simp add: SplitN2_def keyspaceOf_def tableOf_def)
qed

lemma classifyColumns_fault:
  "classifyColumns meta names acc = Inl f \<Longrightarrow> \<exists>name. f = Panic (NilDereference name)"
proof (induction names arbitrary: acc)
  case Nil
  then show ?case by simp
next
  case (Cons name names)
  obtain pk ck other where acc: "acc = (pk, ck, other)" by (cases acc)
  from Cons.prems Cons.IH show ?case
    unfolding acc by (auto split: option.splits ColumnKind.splits)
qed

lemma makeBindMarkerAssignmentList_fault:
  "makeBindMarkerAssignmentList r names acc = Inl f \<Longrightarrow> \<exists>name. f = Panic (NilDereference name)"
proof (induction names arbitrary: acc)
  case Nil
  then show ?case by simp
next
  case (Cons name names)
  from Cons.prems Cons.IH show ?case
    by (auto simp: columnType_def split: option.splits)
qed

lemma makeBindMarkerAssignments_fault:
  "makeBindMarkerAssignments r names sep = Inl f \<Longrightarrow> \<exists>name. f = Panic (NilDereference name)"
  using makeBindMarkerAssignmentList_fault [of r names "[]" f]
  by (auto simp: makeBindMarkerAssignments_def split: sum.splits)

lemma NewDeltaReplicator_fault:
  assumes "NewDeltaReplicator meta cons spare = Inl f"
  shows "\<exists>name. f = Panic (NilDereference name)"
  using assms
  by (auto simp: NewDeltaReplicator_def computeRowDeleteQuery_def
      computePartitionDeleteQuery_def computeRangeDeleteQueries_def Let_def
      split: sum.splits prod.splits
      dest: classifyColumns_fault makeBindMarkerAssignments_fault
        makeBindMarkerAssignmentList_fault)

lemma CreateChangeConsumer_unqualified:
  "\<not> isQualified name \<Longrightarrow>
   CreateChangeConsumer rf spare name =
     (Inl (Error (''table name is not fully qualified: '' @ name)), [])"
  by (simp add: CreateChangeConsumer_def SplitN2_unqualified)

lemma CreateChangeConsumer_qualified:
  "isQualified name \<Longrightarrow>
   CreateChangeConsumer rf spare name =
     (case destinationSession rf (keyspaceOf name) of
        Inl err \<Rightarrow> (Inl (Error err), [KeyspaceMetadataCall (keyspaceOf name), CloseCall])
      | Inr kmeta \<Rightarrow>
          (case Tables kmeta (tableOf name) of
             None \<Rightarrow> (Inl (Error (''table '' @ name @ '' does not exist'')),
                       [KeyspaceMetadataCall (keyspaceOf name), CloseCall])
           | Some tmeta \<Rightarrow> (NewDeltaReplicator tmeta (rfConsistency rf) spare,
                             [KeyspaceMetadataCall (keyspaceOf name)])))"
  by (simp add: CreateChangeConsumer_def SplitN2_qualified Let_def
      cong: sum.case_cong option.case_cong)

text \<open>
  Claim C7. \<open>CreateChangeConsumer\<close> returns an error, and with it no consumer,
  exactly when the name has no dot or the catalog lookup does not give the named table;
  otherwise it returns what \<open>NewDeltaReplicator\<close> builds from the table's metadata. It
  asks the catalog at most once, and not at all for a name without a dot: a failure is
  returned at once and nothing is tried again.
\<close>

theorem consumer_construction_errors:
  "((\<exists>err. fst (CreateChangeConsumer rf spare name) = Inl (Error err)) \<longleftrightarrow>
    (\<not> isQualified name \<or> catalogTable rf name = None)) \<and>
   (\<forall>tmeta. isQualified name \<and> catalogTable rf name = Some tmeta \<longrightarrow>
      fst (CreateChangeConsumer rf spare name) =
        NewDeltaReplicator tmeta (rfConsistency rf) spare) \<and>
   length (filter isLookup (snd (CreateChangeConsumer rf spare name))) \<le> 1 \<and>
   (\<not> isQualified name \<longrightarrow> snd (CreateChangeConsumer rf spare name) = [])"
proof (cases "isQualified name")
  case False
  then show ?thesis
    by (simp add: CreateChangeConsumer_unqualified)
next
  case True
  show ?thesis
  proof (cases "destinationSession rf (keyspaceOf name)")
    case (Inl err)
    with True show ?thesis
      by (simp add: CreateChangeConsumer_qualified catalogTable_def isLookup_def)
  next
    case (Inr kmeta)
    show ?thesis
    proof (cases "Tables kmeta (tableOf name)")
      case None
      with True Inr show ?thesis
        by (simp add: CreateChangeConsumer_qualified catalogTable_def isLookup_def)
    next
      case (Some tmeta)
      have "\<not> (\<exists>err. NewDeltaReplicator tmeta (rfConsistency rf) spare = Inl (Error err))"
        using NewDeltaReplicator_fault [of tmeta "rfConsistency rf" spare] by auto
      with True Inr Some show ?thesis
        by (simp add: CreateChangeConsumer_qualified catalogTable_def isLookup_def)
    qed
  qed
qed

theorem consumer_construction_errors_witness:
  "isQualified ''ks.t'' \<and> catalogTable exampleFactory ''ks.t'' = Some exampleMeta \<and>
   fst (CreateChangeConsumer exampleFactory 0 ''ks.t'') = Inr exampleReplicator \<and>
   \<not> isQualified ''kst'' \<and>
   (\<exists>err. fst (CreateChangeConsumer exampleFactory 0 ''kst'') = Inl (Error err)) \<and>
   catalogTable exampleFactory ''ks.u'' = None \<and>
   (\<exists>err. fst (CreateChangeConsumer exampleFactory 0 ''ks.u'') = Inl (Error err))"
proof -
  have q: "isQualified ''ks.t''" "\<not> isQualified ''kst''"
    by (simp_all add: isQualified_def)
  have c: "catalogTable exampleFactory ''ks.t'' = Some exampleMeta"
    "catalogTable exampleFactory ''ks.u'' = None"
    by (simp_all add: catalogTable_def exampleFactory_def keyspaceOf_def tableOf_def)
  have cons: "rfConsistency exampleFactory = ConsistencyOne"
    by (simp add: exampleFactory_def)
  from consumer_construction_errors [of exampleFactory 0 "''ks.t''"] q(1) c(1)
  have 1: "fst (CreateChangeConsumer exampleFactory 0 ''ks.t'') = Inr exampleReplicator"
    by (simp add: cons example_construction)
  from consumer_construction_errors [of exampleFactory 0 "''kst''"] q(2)
  have 2: "\<exists>err. fst (CreateChangeConsumer exampleFactory 0 ''kst'') = Inl (Error err)"
    by blast
  from consumer_construction_errors [of exampleFactory 0 "''ks.u''"] c(2)
  have 3: "\<exists>err. fst (CreateChangeConsumer exampleFactory 0 ''ks.u'') = Inl (Error err)"
    by blast
  from q c 1 2 3 show ?thesis by blast
qed

section \<open>Properties of Consume\<close>

declare consumeFrom.simps [simp del]

lemma op_distinct:
  "isRowOperation op \<Longrightarrow> \<not> isRangeStart op"
  "isRowOperation op \<Longrightarrow> \<not> isRangeEnd op"
  "isRangeStart op \<Longrightarrow> \<not> isRangeEnd op"
  by (auto simp: isRowOperation_def isRangeStart_def isRangeEnd_def op_defs)

lemma consumeFrom_unfold:
  "consumeFrom r sess log timestamp delta pos =
     (if pos < length delta then
        (if isRowOperation (GetOperation (delta ! pos)) then
           andThen (processRow r sess log timestamp (delta ! pos))
             (\<lambda>r' log'. consumeFrom r' sess log' timestamp delta (pos + 1))
         else if isRangeStart (GetOperation (delta ! pos)) then
           (if pos + 1 < length delta then
              andThen (processRangeDelete r sess log timestamp (delta ! pos) (delta ! (pos + 1)))
                (\<lambda>r' log'. consumeFrom r' sess log' timestamp delta (pos + 2))
            else (Some (Panic (DeltaIndexOutOfRange (pos + 1) (length delta))), r, log))
         else (Some (Panic (UnsupportedOperation (GetOperation (delta ! pos)))), r, log))
      else (None, r, log))"
  by (subst consumeFrom.simps)
     (auto simp: isRowOperation_def isRangeStart_def andThen_def processRow_def Let_def op_defs
        split: prod.splits)

lemma startsPaired_nth:
  "startsPaired delta \<Longrightarrow> pos < length delta \<Longrightarrow>
   isRangeStart (GetOperation (delta ! pos)) \<Longrightarrow>
   pos + 1 < length delta \<and> isRangeEnd (GetOperation (delta ! (pos + 1)))"
proof (induction delta arbitrary: pos rule: startsPaired.induct)
  case 1
  then show ?case by simp
next
  case (2 c)
  then show ?case by simp
next
  case (3 c d rest)
  show ?case
  proof (cases pos)
    case 0
    with "3.prems" show ?thesis by simp
  next
    case (Suc m)
    with "3.prems" "3.IH" [of m] show ?thesis by simp
  qed
qed

lemma sameTranslator_refl: "sameTranslator r r"
  by (simp add: sameTranslator_def)

lemma sameTranslator_trans:
  "sameTranslator r r' \<Longrightarrow> sameTranslator r' r'' \<Longrightarrow> sameTranslator r r''"
  by (simp add: sameTranslator_def)

lemma execute_frame: "fst (snd (execute r sess log a)) = r"
  by (simp add: execute_def)

lemma processInsertOrUpdate_frame:
  "sameTranslator r (fst (snd (processInsertOrUpdate r sess log timestamp isInsert c)))"
proof -
  have "fst (snd (processInsertOrUpdate r sess log timestamp isInsert c)) =
        r\<lparr>pkColumns := fst (go_append (pkColumns r) (ckColumns r))\<rparr>"
    by (simp add: processInsertOrUpdate_def buildBatch_unfold execute_def split: sum.splits)
  then show ?thesis
    by (simp add: sameTranslator_def go_append_fst)
qed

lemma processRow_frame: "sameTranslator r (fst (snd (processRow r sess log timestamp c)))"
  by (simp add: processRow_def processUpdate_def processInsert_def processInsertOrUpdate_frame
      processRowDelete_def processPartitionDelete_def execute_frame sameTranslator_refl Let_def)

lemma processRangeDelete_frame: "fst (snd (processRangeDelete r sess log timestamp start en)) = r"
  by (simp add: processRangeDelete_def execute_frame Let_def)

lemma consumeFrom_frame:
  "sameTranslator r (fst (snd (consumeFrom r sess log timestamp delta pos)))"
proof (induction "length delta - pos" arbitrary: pos r log rule: less_induct)
  case less
  show ?case
  proof (cases "pos < length delta")
    case False
    then show ?thesis
      by (subst consumeFrom_unfold) (simp add: sameTranslator_refl)
  next
    case True
    have next1: "sameTranslator r' (fst (snd (consumeFrom r' sess log' timestamp delta (pos + 1))))"
      for r' log'
      using less [of "pos + 1" r' log'] True by simp
    have next2: "sameTranslator r' (fst (snd (consumeFrom r' sess log' timestamp delta (pos + 2))))"
      for r' log'
      using less [of "pos + 2" r' log'] True by simp
    show ?thesis
    proof (cases "isRowOperation (GetOperation (delta ! pos))")
      case row: True
      obtain err r' log' where p: "processRow r sess log timestamp (delta ! pos) = (err, r', log')"
        by (cases "processRow r sess log timestamp (delta ! pos)")
      have f: "sameTranslator r r'"
        using processRow_frame [of r sess log timestamp "delta ! pos"] p by simp
      show ?thesis
        using True row p f sameTranslator_trans [OF f next1 [of r' log']]
        by (subst consumeFrom_unfold) (simp add: andThen_def)
    next
      case norow: False
      show ?thesis
      proof (cases "isRangeStart (GetOperation (delta ! pos)) \<and> pos + 1 < length delta")
        case True
        obtain err r' log' where
          p: "processRangeDelete r sess log timestamp (delta ! pos) (delta ! (pos + 1)) =
              (err, r', log')"
          by (cases "processRangeDelete r sess log timestamp (delta ! pos) (delta ! (pos + 1))")
        have f: "r' = r"
          using processRangeDelete_frame [of r sess log timestamp "delta ! pos" "delta ! (pos + 1)"] p
          by simp
        show ?thesis
          using True norow \<open>pos < length delta\<close> p f next2 [of r log']
          by (subst consumeFrom_unfold) (simp add: andThen_def sameTranslator_refl)
      next
        case False
        then show ?thesis
          using norow \<open>pos < length delta\<close>
          by (subst consumeFrom_unfold) (auto simp: sameTranslator_refl)
      qed
    qed
  qed
qed

lemma sameTranslator_update:
  assumes "sameTranslator r r'"
  shows "r' = r\<lparr>pkColumns := pkColumns r'\<rparr>"
  using assms by (cases r, cases r') (simp add: sameTranslator_def)

lemma keyColumnsOf_same: "sameTranslator r r' \<Longrightarrow> keyColumnsOf r' = keyColumnsOf r"
  by (simp add: sameTranslator_def keyColumnsOf_def)

lemma insertMarkerQueries_pk:
  "insertMarkerQueries (r\<lparr>pkColumns := p\<rparr>) isInsert c keyColumns =
   insertMarkerQueries r isInsert c keyColumns"
proof -
  have "keyBindMarkers (r\<lparr>pkColumns := p\<rparr>) names acc = keyBindMarkers r names acc"
    for names acc
    by (induction names arbitrary: acc) (simp_all add: columnType_def split: option.splits)
  then show ?thesis
    by (simp add: insertMarkerQueries_def cong: sum.case_cong)
qed

lemma buildBatch_same:
  assumes "sameTranslator r r'"
  shows "snd (buildBatch r' timestamp isInsert c) = snd (buildBatch r timestamp isInsert c)"
proof -
  note u = sameTranslator_update [OF assms]
  have k: "keyColumnsOf r' = keyColumnsOf r"
    by (rule keyColumnsOf_same [OF assms])
  have o: "otherColumns r' = otherColumns r"
    using assms by (simp add: sameTranslator_def)
  have m: "makeBindMarkerAssignments r' names sep = makeBindMarkerAssignments r names sep"
    for names sep
    by (subst u) (simp add: makeBindMarkerAssignments_def makeBindMarkerAssignmentList_pk)
  have i: "insertMarkerQueries (r'\<lparr>pkColumns := p\<rparr>) isInsert c names =
           insertMarkerQueries (r\<lparr>pkColumns := q\<rparr>) isInsert c names" for p q names
    by (subst u) (simp add: insertMarkerQueries_pk)
  have l: "otherColumnsLoop r' timestamp c names conds cols batch =
           otherColumnsLoop r timestamp c names conds cols batch" for names conds cols batch
    by (subst u) (simp add: otherColumnsLoop_pk)
  show ?thesis
    unfolding buildBatch_unfold
    by (simp add: k o m l i [of _ _ "fst (go_append (pkColumns r) (ckColumns r))"]
        cong: sum.case_cong)
qed

lemma processInsertOrUpdate_same:
  assumes "sameTranslator r r'"
  shows "sameOutcome (processInsertOrUpdate r sess log timestamp isInsert c)
           (processInsertOrUpdate r' sess log timestamp isInsert c)"
proof -
  have f: "sameTranslator (fst (snd (processInsertOrUpdate r sess log timestamp isInsert c)))
             (fst (snd (processInsertOrUpdate r' sess log timestamp isInsert c)))"
    using processInsertOrUpdate_frame [of r sess log timestamp isInsert c]
      processInsertOrUpdate_frame [of r' sess log timestamp isInsert c] assms
    by (simp add: sameTranslator_def)
  have c: "consistency r' = consistency r"
    using assms by (simp add: sameTranslator_def)
  obtain x b where b: "buildBatch r timestamp isInsert c = (x, b)"
    by (cases "buildBatch r timestamp isInsert c")
  obtain x' b' where b': "buildBatch r' timestamp isInsert c = (x', b')"
    by (cases "buildBatch r' timestamp isInsert c")
  have bb: "b' = b"
    using buildBatch_same [OF assms, of timestamp isInsert c] b b' by simp
  have "x = fst (buildBatch r timestamp isInsert c)" "x' = fst (buildBatch r' timestamp isInsert c)"
    using b b' by simp_all
  then have cx: "consistency x = consistency r" "consistency x' = consistency r'"
    by (simp_all add: buildBatch_unfold)
  have "fst (processInsertOrUpdate r' sess log timestamp isInsert c) =
        fst (processInsertOrUpdate r sess log timestamp isInsert c) \<and>
        snd (snd (processInsertOrUpdate r' sess log timestamp isInsert c)) =
        snd (snd (processInsertOrUpdate r sess log timestamp isInsert c))"
    by (simp add: processInsertOrUpdate_def b b' bb cx c execute_def split: sum.splits)
  with f show ?thesis
    by (simp add: sameOutcome_def)
qed

lemma processRow_same:
  assumes "sameTranslator r r'"
  shows "sameOutcome (processRow r sess log timestamp c) (processRow r' sess log timestamp c)"
proof -
  have d: "sameOutcome (processRowDelete r sess log timestamp c)
             (processRowDelete r' sess log timestamp c)"
    "sameOutcome (processPartitionDelete r sess log timestamp c)
             (processPartitionDelete r' sess log timestamp c)"
    using assms
    by (simp_all add: sameOutcome_def processRowDelete_def processPartitionDelete_def
        execute_def Let_def sameTranslator_def)
  show ?thesis
    using d processInsertOrUpdate_same [OF assms]
    by (simp add: processRow_def processUpdate_def processInsert_def)
qed

lemma processRangeDelete_same:
  assumes "sameTranslator r r'"
  shows "sameOutcome (processRangeDelete r sess log timestamp start en)
           (processRangeDelete r' sess log timestamp start en)"
proof -
  have "resolveRange r' start en = resolveRange r start en"
    using assms unfolding resolveRange_def sameTranslator_def by (simp add: Let_def)
  then show ?thesis
    using assms
    by (simp add: sameOutcome_def processRangeDelete_def execute_def Let_def sameTranslator_def)
qed

lemma andThen_same:
  assumes "sameOutcome res res'"
    and "\<And>x x' l. sameTranslator x x' \<Longrightarrow> sameOutcome (k x l) (k' x' l)"
  shows "sameOutcome (andThen res k) (andThen res' k')"
proof -
  obtain err x l where r: "res = (err, x, l)" by (cases res)
  obtain err' x' l' where r': "res' = (err', x', l')" by (cases res')
  from assms(1) have e: "err' = err" "l' = l" "sameTranslator x x'"
    by (simp_all add: sameOutcome_def r r')
  show ?thesis
    using assms(2) [OF e(3), of l] e
    by (simp add: andThen_def r r' sameOutcome_def)
qed

lemma consumeFrom_same:
  "sameTranslator r r' \<Longrightarrow>
   sameOutcome (consumeFrom r sess log timestamp delta pos)
     (consumeFrom r' sess log timestamp delta pos)"
proof (induction "length delta - pos" arbitrary: pos r r' log rule: less_induct)
  case less
  note st = less.prems
  show ?case
  proof (cases "pos < length delta")
    case False
    then show ?thesis
      using st
      by (subst consumeFrom_unfold, subst (2) consumeFrom_unfold) (simp add: sameOutcome_def)
  next
    case True
    have next1: "sameOutcome (consumeFrom x sess l timestamp delta (pos + 1))
                   (consumeFrom x' sess l timestamp delta (pos + 1))"
      if "sameTranslator x x'" for x x' l
      using less.hyps [of "pos + 1" x x' l] True that by simp
    have next2: "sameOutcome (consumeFrom x sess l timestamp delta (pos + 2))
                   (consumeFrom x' sess l timestamp delta (pos + 2))"
      if "sameTranslator x x'" for x x' l
      using less.hyps [of "pos + 2" x x' l] True that by simp
    have row: "sameOutcome
        (andThen (processRow r sess log timestamp (delta ! pos))
           (\<lambda>r' log'. consumeFrom r' sess log' timestamp delta (pos + 1)))
        (andThen (processRow r' sess log timestamp (delta ! pos))
           (\<lambda>r' log'. consumeFrom r' sess log' timestamp delta (pos + 1)))"
      by (rule andThen_same [OF processRow_same [OF st]]) (rule next1)
    have range: "sameOutcome
        (andThen (processRangeDelete r sess log timestamp (delta ! pos) (delta ! (pos + 1)))
           (\<lambda>r' log'. consumeFrom r' sess log' timestamp delta (pos + 2)))
        (andThen (processRangeDelete r' sess log timestamp (delta ! pos) (delta ! (pos + 1)))
           (\<lambda>r' log'. consumeFrom r' sess log' timestamp delta (pos + 2)))"
      by (rule andThen_same [OF processRangeDelete_same [OF st]]) (rule next2)
    show ?thesis
      using row range st
      by (subst consumeFrom_unfold, subst (2) consumeFrom_unfold) (simp add: sameOutcome_def)
  qed
qed

lemma consumeAll_frame: "sameTranslator r (fst (consumeAll r sess log cs))"
proof (induction cs arbitrary: r log)
  case Nil
  show ?case by (simp add: sameTranslator_refl)
next
  case (Cons c cs)
  obtain err r' log' where p: "Consume r sess log c = (err, r', log')"
    by (cases "Consume r sess log c")
  have "sameTranslator r r'"
    using consumeFrom_frame [of r sess log "CassandraTimestamp c" "Delta c" 0] p
    by (simp add: Consume_def)
  from sameTranslator_trans [OF this Cons.IH [of r' log']] p show ?case
    by simp
qed

text \<open>
  What a call of \<open>Consume\<close>, and so any sequence of calls, leaves as it was: the
  table name and consistency level, the clustering-key and regular column lists, the
  column types, the three kinds of query strings, and of the partition-key slice the
  elements, the length and the capacity (\<open>sameTranslator\<close>). On a translator that
  earlier calls have used, \<open>Consume\<close> returns the same error and executes the same
  actions as on the translator as constructed.
\<close>

lemma translator_fields_unchanged:
  "sameTranslator r (fst (snd (Consume r sess log c))) \<and>
   sameTranslator r (fst (consumeAll r sess log cs)) \<and>
   fst (Consume (fst (consumeAll r sess log cs)) sess log2 c) = fst (Consume r sess log2 c) \<and>
   snd (snd (Consume (fst (consumeAll r sess log cs)) sess log2 c)) =
     snd (snd (Consume r sess log2 c))"
proof -
  have 1: "sameTranslator r (fst (snd (Consume r sess log c)))"
    unfolding Consume_def by (rule consumeFrom_frame)
  have 2: "sameTranslator r (fst (consumeAll r sess log cs))"
    by (rule consumeAll_frame)
  have "sameOutcome (Consume r sess log2 c) (Consume (fst (consumeAll r sess log cs)) sess log2 c)"
    unfolding Consume_def by (rule consumeFrom_same [OF 2])
  with 1 2 show ?thesis
    by (simp add: sameOutcome_def)
qed

lemma appendValueByType_fault: "appendValueByType vs v ty = Inl f \<Longrightarrow> buildFault f"
  by (auto simp: appendValueByType_def split: if_splits val.splits)

lemma appendedElementQueries_fault:
  "appendedElementQueries setStr c keyColumns ty cells batch = Inl f \<Longrightarrow> buildFault f"
proof (induction cells arbitrary: batch)
  case Nil
  then show ?case by simp
next
  case (Cons cell cells)
  obtain k v where cell: "cell = (k, v)" by (cases cell)
  from Cons.prems Cons.IH show ?case
    unfolding cell by (auto split: sum.splits dest: appendValueByType_fault)
qed

lemma findUDTElements_fault: "findUDTElements colInfos colName = Inl f \<Longrightarrow> buildFault f"
  by (induction colInfos) (auto split: if_splits option.splits)

text \<open>
  The added fields of a UDT change by kind: a pointer is taken, a nil value and a
  missing field leave the element unset, and a value that is no pointer, slice or map
  makes \<open>IsNil\<close> panic.
\<close>

lemma added_field_kinds:
  "addedFieldValues [(''x'', PtrV (IntV 1)), (''y'', VNil)] [''x'', ''y'', ''z''] [] =
     Inr [PtrV (IntV 1), UnsetValue, UnsetValue]"
  "addedFieldValues [(''x'', IntV 1)] [''x''] [] = Inl (Panic IsNilOfNonNillable)"
  by simp_all

lemma IsNil_fault: "IsNil v = Inl f \<Longrightarrow> buildFault f"
  by (cases v) auto

lemma addedFieldValues_fault:
  "addedFieldValues added els elementValues = Inl f \<Longrightarrow> buildFault f"
proof (induction els arbitrary: elementValues)
  case Nil
  then show ?case by simp
next
  case (Cons el els)
  from Cons.prems Cons.IH show ?case
    by (auto simp: Let_def split: if_splits sum.splits dest: IsNil_fault)
qed

lemma markRemovedFields_fault: "markRemovedFields elementValues idxs = Inl f \<Longrightarrow> buildFault f"
  by (induction idxs arbitrary: elementValues) (auto split: if_splits)

lemma udtFieldQueries_fault:
  "udtFieldQueries r c keyColumns pkConditions colName ty els batch = Inl f \<Longrightarrow> buildFault f"
proof (induction els arbitrary: batch)
  case Nil
  then show ?case by simp
next
  case (Cons e els)
  obtain el v where e: "e = (el, v)" by (cases e)
  from Cons.prems Cons.IH show ?case
    unfolding e
    by (auto simp: Let_def split: if_splits sum.splits dest: appendValueByType_fault)
qed

lemma columnQueries_fault:
  assumes "columnQueries r timestamp c keyColumns pkConditions colName = Inl f"
  shows "buildFault f"
proof (cases "columnTypes r colName")
  case None
  with assms show ?thesis
    by (auto simp: columnQueries_def columnType_def)
next
  case (Some ty)
  have scalar: "buildFault f"
    if "scalarColumnQueries r c keyColumns pkConditions colName ty = Inl f"
    using that
    by (auto simp: scalarColumnQueries_def Let_def split: if_splits sum.splits
        dest: appendValueByType_fault)
  have lst: "buildFault f"
    if "listColumnQueries r timestamp c keyColumns pkConditions colName ty = Inl f"
    using that
    by (auto simp: listColumnQueries_def Let_def split: if_splits sum.splits option.splits
        dest: appendedElementQueries_fault)
  have udt: "buildFault f"
    if "udtColumnQueries r c keyColumns pkConditions colName ty = Inl f"
    using that
    by (auto simp: udtColumnQueries_def Let_def split: if_splits sum.splits
        dest: appendValueByType_fault findUDTElements_fault markRemovedFields_fault
          addedFieldValues_fault
          udtFieldQueries_fault)
  from assms scalar lst udt show ?thesis
    by (auto simp: columnQueries_def columnType_def Some Let_def split: if_splits)
qed

lemma otherColumnsLoop_fault:
  "otherColumnsLoop r timestamp c keyColumns pkConditions cols batch = Inl f \<Longrightarrow> buildFault f"
proof (induction cols arbitrary: batch)
  case Nil
  then show ?case by simp
next
  case (Cons col cols)
  from Cons.prems Cons.IH show ?case
    by (auto split: sum.splits dest: columnQueries_fault)
qed

lemma keyBindMarkers_fault: "keyBindMarkers r names acc = Inl f \<Longrightarrow> buildFault f"
proof (induction names arbitrary: acc)
  case Nil
  then show ?case by simp
next
  case (Cons name names)
  from Cons.prems Cons.IH show ?case
    by (auto simp: columnType_def split: option.splits)
qed

lemma buildBatch_fault:
  assumes "snd (buildBatch r timestamp isInsert c) = Inl f"
  shows "buildFault f"
  using assms makeBindMarkerAssignments_fault [of r "keyColumnsOf r" "'' AND ''" f]
  by (auto simp: buildBatch_unfold insertMarkerQueries_def
      split: sum.splits if_splits
      dest: keyBindMarkers_fault otherColumnsLoop_fault)

lemma buildFault_kind: "buildFault f \<Longrightarrow> isPanic f \<and> \<not> deltaFault f"
  by (cases f rule: buildFault.cases) simp_all

lemma execute_fault: "fst (execute r sess log a) = Some f \<Longrightarrow> \<exists>e. f = Error e \<and> sess log a = Some e"
  by (auto simp: execute_def)

lemma processInsertOrUpdate_fault:
  assumes "fst (processInsertOrUpdate r sess log timestamp isInsert c) = Some f"
  shows "buildFault f \<or> (\<exists>e l a. f = Error e \<and> sess l a = Some e)"
proof (cases "snd (buildBatch r timestamp isInsert c)")
  case (Inl g)
  with assms have "f = g"
    by (cases "buildBatch r timestamp isInsert c") (simp add: processInsertOrUpdate_def)
  with buildBatch_fault [OF Inl] show ?thesis by simp
next
  case (Inr batch)
  with assms obtain x where
    "fst (execute x sess log (ExecuteBatch batch (consistency x) timestamp)) = Some f"
    by (cases "buildBatch r timestamp isInsert c") (auto simp: processInsertOrUpdate_def)
  from execute_fault [OF this] show ?thesis by blast
qed

lemma processRow_fault:
  assumes "fst (processRow r sess log timestamp c) = Some f"
  shows "buildFault f \<or> (\<exists>e l a. f = Error e \<and> sess l a = Some e)"
  using assms processInsertOrUpdate_fault [of r sess log timestamp _ c f]
  by (auto simp: processRow_def processUpdate_def processInsert_def processRowDelete_def
      processPartitionDelete_def Let_def split: if_splits dest!: execute_fault)

lemma processRangeDelete_fault:
  assumes "fst (processRangeDelete r sess log timestamp start en) = Some f"
  shows "(\<exists>idx n. f = Panic (QueryIndexOutOfRange idx n)) \<or>
         (\<exists>e l a. f = Error e \<and> sess l a = Some e)"
  using assms
  by (auto simp: processRangeDelete_def Let_def split: if_splits dest!: execute_fault)

lemma andThen_fst:
  "fst (andThen res k) = Some f \<Longrightarrow>
   fst res = Some f \<or> (fst res = None \<and> fst (k (fst (snd res)) (snd (snd res))) = Some f)"
  by (cases res) (auto simp: andThen_def split: if_splits)

lemma andThen_not_None:
  "(\<And>x l. fst (k x l) \<noteq> None) \<Longrightarrow> fst (andThen res k) \<noteq> None"
  by (cases res) (auto simp: andThen_def)

lemma consumeFrom_no_delta_fault:
  "startsPaired delta \<Longrightarrow> fst (consumeFrom r sess log timestamp delta pos) = Some f \<Longrightarrow>
   \<not> deltaFault f"
proof (induction "length delta - pos" arbitrary: pos r log rule: less_induct)
  case less
  note paired = less.prems(1) and res = less.prems(2)
  show ?case
  proof (cases "pos < length delta")
    case False
    with res show ?thesis
      by (subst (asm) consumeFrom_unfold) simp
  next
    case True
    consider (row) "isRowOperation (GetOperation (delta ! pos))"
      | (start) "\<not> isRowOperation (GetOperation (delta ! pos))"
          "isRangeStart (GetOperation (delta ! pos))"
      | (other) "\<not> isRowOperation (GetOperation (delta ! pos))"
          "\<not> isRangeStart (GetOperation (delta ! pos))"
      by blast
    then show ?thesis
    proof cases
      case row
      from res True row have
        "fst (andThen (processRow r sess log timestamp (delta ! pos))
               (\<lambda>r' log'. consumeFrom r' sess log' timestamp delta (pos + 1))) = Some f"
        by (subst (asm) consumeFrom_unfold) simp
      from andThen_fst [OF this] show ?thesis
      proof
        assume "fst (processRow r sess log timestamp (delta ! pos)) = Some f"
        from processRow_fault [OF this] show ?thesis
          by (auto dest: buildFault_kind)
      next
        assume a: "fst (processRow r sess log timestamp (delta ! pos)) = None \<and>
          fst (consumeFrom (fst (snd (processRow r sess log timestamp (delta ! pos)))) sess
                 (snd (snd (processRow r sess log timestamp (delta ! pos)))) timestamp delta
                 (pos + 1)) = Some f"
        show ?thesis
          by (rule less.hyps [OF _ paired conjunct2 [OF a]]) (use True in simp)
      qed
    next
      case start
      from startsPaired_nth [OF paired True start(2)] have lt: "pos + 1 < length delta"
        by simp
      from res True start lt have
        "fst (andThen (processRangeDelete r sess log timestamp (delta ! pos) (delta ! (pos + 1)))
               (\<lambda>r' log'. consumeFrom r' sess log' timestamp delta (pos + 2))) = Some f"
        by (subst (asm) consumeFrom_unfold) simp
      from andThen_fst [OF this] show ?thesis
      proof
        assume "fst (processRangeDelete r sess log timestamp (delta ! pos) (delta ! (pos + 1))) =
                Some f"
        from processRangeDelete_fault [OF this] show ?thesis
          by auto
      next
        assume a: "fst (processRangeDelete r sess log timestamp (delta ! pos) (delta ! (pos + 1))) =
                   None \<and>
          fst (consumeFrom
                 (fst (snd (processRangeDelete r sess log timestamp (delta ! pos)
                              (delta ! (pos + 1))))) sess
                 (snd (snd (processRangeDelete r sess log timestamp (delta ! pos)
                              (delta ! (pos + 1))))) timestamp delta
                 (pos + 2)) = Some f"
        show ?thesis
          by (rule less.hyps [OF _ paired conjunct2 [OF a]]) (use True in simp)
      qed
    next
      case other
      with res True show ?thesis
        by (subst (asm) consumeFrom_unfold) auto
    qed
  qed
qed

lemma consumeFrom_start_at_end:
  assumes "pos + 1 = length delta" and "isRangeStart (GetOperation (delta ! pos))"
  shows "consumeFrom r sess log timestamp delta pos =
         (Some (Panic (DeltaIndexOutOfRange (pos + 1) (length delta))), r, log)"
  using assms op_distinct(1) [of "GetOperation (delta ! pos)"]
  by (subst consumeFrom_unfold) auto

text \<open>
  Claim C10. When every RangeDeleteStart event of the delta is immediately followed by a
  RangeDeleteEnd event, \<open>Consume\<close> never fails with the index \<open>pos + 1\<close> outside the
  delta, from whatever position the loop runs; without that, the loop at a
  RangeDeleteStart that is the last element panics with exactly that index out of range.
\<close>

theorem range_start_access_in_bounds:
  "(startsPaired delta \<longrightarrow>
      (\<forall>idx n. fst (consumeFrom r sess log timestamp delta pos) \<noteq>
                 Some (Panic (DeltaIndexOutOfRange idx n))) \<and>
      (\<forall>idx n. fst (Consume r sess log \<lparr>CassandraTimestamp = timestamp, Delta = delta\<rparr>) \<noteq>
                 Some (Panic (DeltaIndexOutOfRange idx n)))) \<and>
   (pos + 1 = length delta \<and> isRangeStart (GetOperation (delta ! pos)) \<longrightarrow>
      consumeFrom r sess log timestamp delta pos =
        (Some (Panic (DeltaIndexOutOfRange (pos + 1) (length delta))), r, log))"
proof (intro conjI impI allI)
  fix idx n
  assume p: "startsPaired delta"
  show "fst (consumeFrom r sess log timestamp delta pos) \<noteq>
        Some (Panic (DeltaIndexOutOfRange idx n))"
    using consumeFrom_no_delta_fault [OF p, of r sess log timestamp pos] by fastforce
  show "fst (Consume r sess log \<lparr>CassandraTimestamp = timestamp, Delta = delta\<rparr>) \<noteq>
        Some (Panic (DeltaIndexOutOfRange idx n))"
    using consumeFrom_no_delta_fault [OF p, of r sess log timestamp 0]
    by (fastforce simp: Consume_def)
next
  assume "pos + 1 = length delta \<and> isRangeStart (GetOperation (delta ! pos))"
  then show "consumeFrom r sess log timestamp delta pos =
        (Some (Panic (DeltaIndexOutOfRange (pos + 1) (length delta))), r, log)"
    using consumeFrom_start_at_end by blast
qed

lemma example_range_delete:
  "data x ''seq'' = None \<Longrightarrow>
   processRangeDelete exampleReplicator okSession log timestamp exampleRangeStart x =
     (None, exampleReplicator,
      log @ [ExecQuery ''DELETE FROM ks.t WHERE id = ? AND seq >= ?'' [IntV 1, IntV 5]
               ConsistencyOne timestamp])"
  by (simp add: processRangeDelete_def resolveRange_def exampleReplicator_def
      exampleRangeStart_def keyRow_simps GetValue_def elems_def Let_def op_defs execute_def
      okSession_def)

lemma example_paired_consume:
  "Consume exampleReplicator okSession []
     \<lparr>CassandraTimestamp = 1000, Delta = [exampleRangeStart, exampleRangeEnd]\<rparr> =
   (None, exampleReplicator,
    [ExecQuery ''DELETE FROM ks.t WHERE id = ? AND seq >= ?'' [IntV 1, IntV 5]
       ConsistencyOne 1000])"
proof -
  have s: "isRangeStart (GetOperation exampleRangeStart)"
    "\<not> isRowOperation (GetOperation exampleRangeStart)"
    by (simp_all add: exampleRangeStart_def keyRow_simps isRangeStart_def isRowOperation_def
        op_defs)
  have e: "data exampleRangeEnd ''seq'' = None"
    by (simp add: exampleRangeEnd_def keyRow_simps)
  show ?thesis
    unfolding Consume_def
    by (subst consumeFrom_unfold, subst consumeFrom_unfold)
       (simp add: s andThen_def example_range_delete [OF e])
qed

theorem range_start_access_in_bounds_witness:
  "startsPaired [exampleRangeStart, exampleRangeEnd] \<and>
   fst (Consume exampleReplicator okSession []
          \<lparr>CassandraTimestamp = 1000, Delta = [exampleRangeStart, exampleRangeEnd]\<rparr>) = None \<and>
   fst (Consume exampleReplicator okSession []
          \<lparr>CassandraTimestamp = 1000, Delta = [exampleRangeStart, exampleRangeEnd]\<rparr>) \<noteq>
     Some (Panic (DeltaIndexOutOfRange 2 2)) \<and>
   (0::nat) + 1 = length [exampleRangeStart] \<and>
   isRangeStart (GetOperation ([exampleRangeStart] ! 0)) \<and>
   consumeFrom exampleReplicator okSession [] 1000 [exampleRangeStart] 0 =
     (Some (Panic (DeltaIndexOutOfRange 1 1)), exampleReplicator, [])"
proof -
  have p: "startsPaired [exampleRangeStart, exampleRangeEnd]"
    by (simp add: exampleRangeStart_def exampleRangeEnd_def keyRow_simps isRangeStart_def
        isRangeEnd_def op_defs)
  have s: "(0::nat) + 1 = length [exampleRangeStart] \<and>
           isRangeStart (GetOperation ([exampleRangeStart] ! 0))"
    by (simp add: exampleRangeStart_def keyRow_simps isRangeStart_def)
  from range_start_access_in_bounds
         [of "[exampleRangeStart, exampleRangeEnd]" exampleReplicator okSession "[]" 1000 0] p
  have 1: "fst (Consume exampleReplicator okSession []
          \<lparr>CassandraTimestamp = 1000, Delta = [exampleRangeStart, exampleRangeEnd]\<rparr>) \<noteq>
     Some (Panic (DeltaIndexOutOfRange 2 2))"
    by blast
  from range_start_access_in_bounds
         [of "[exampleRangeStart]" exampleReplicator okSession "[]" 1000 0] s
  have 2: "consumeFrom exampleReplicator okSession [] 1000 [exampleRangeStart] 0 =
     (Some (Panic (DeltaIndexOutOfRange 1 1)), exampleReplicator, [])"
    by simp
  from p s 1 2 example_paired_consume show ?thesis
    by simp
qed

lemma consumeFrom_unrecognized:
  "startsPaired delta \<Longrightarrow> j < length delta \<Longrightarrow> \<not> recognizedAt delta j \<Longrightarrow> pos \<le> j \<Longrightarrow>
   pos = 0 \<or> \<not> isRangeStart (GetOperation (delta ! (pos - 1))) \<Longrightarrow>
   fst (consumeFrom r sess log timestamp delta pos) \<noteq> None"
proof (induction "length delta - pos" arbitrary: pos r log rule: less_induct)
  case less
  note paired = less.prems(1) and j = less.prems(2) and unrec = less.prems(3)
    and le = less.prems(4) and aligned = less.prems(5)
  have lt: "pos < length delta"
    using le j by simp
  consider (row) "isRowOperation (GetOperation (delta ! pos))"
    | (start) "\<not> isRowOperation (GetOperation (delta ! pos))"
        "isRangeStart (GetOperation (delta ! pos))"
    | (other) "\<not> isRowOperation (GetOperation (delta ! pos))"
        "\<not> isRangeStart (GetOperation (delta ! pos))"
    by blast
  then show ?case
  proof cases
    case row
    have "pos \<noteq> j"
      using row unrec by (auto simp: recognizedAt_def)
    with le have le': "pos + 1 \<le> j" by simp
    have al: "pos + 1 = 0 \<or> \<not> isRangeStart (GetOperation (delta ! (pos + 1 - 1)))"
      using op_distinct(1) [OF row] by simp
    have "fst (consumeFrom x sess l timestamp delta (pos + 1)) \<noteq> None" for x l
      by (rule less.hyps [OF _ paired j unrec le' al]) (use lt in simp)
    from andThen_not_None [of "\<lambda>x l. consumeFrom x sess l timestamp delta (pos + 1)", OF this]
    show ?thesis
      using lt row by (subst consumeFrom_unfold) simp
  next
    case start
    from startsPaired_nth [OF paired lt start(2)]
    have lt1: "pos + 1 < length delta" and en: "isRangeEnd (GetOperation (delta ! (pos + 1)))"
      by simp_all
    have "pos \<noteq> j"
      using start unrec by (auto simp: recognizedAt_def)
    moreover have "pos + 1 \<noteq> j"
      using start(2) en unrec by (auto simp: recognizedAt_def)
    ultimately have le': "pos + 2 \<le> j"
      using le by simp
    have al: "pos + 2 = 0 \<or> \<not> isRangeStart (GetOperation (delta ! (pos + 2 - 1)))"
      using en op_distinct(3) [of "GetOperation (delta ! (pos + 1))"] by auto
    have "fst (consumeFrom x sess l timestamp delta (pos + 2)) \<noteq> None" for x l
      by (rule less.hyps [OF _ paired j unrec le' al]) (use lt in simp)
    from andThen_not_None [of "\<lambda>x l. consumeFrom x sess l timestamp delta (pos + 2)", OF this]
    show ?thesis
      using lt lt1 start by (subst consumeFrom_unfold) simp
  next
    case other
    then show ?thesis
      using lt by (subst consumeFrom_unfold) simp
  qed
qed

lemma consumeFrom_ok_session_panics:
  "\<forall>l a. sess l a = None \<Longrightarrow> fst (consumeFrom r sess log timestamp delta pos) = Some f \<Longrightarrow>
   isPanic f"
proof (induction "length delta - pos" arbitrary: pos r log rule: less_induct)
  case less
  note ok = less.prems(1) and res = less.prems(2)
  show ?case
  proof (cases "pos < length delta")
    case False
    with res show ?thesis
      by (subst (asm) consumeFrom_unfold) simp
  next
    case True
    consider (row) "isRowOperation (GetOperation (delta ! pos))"
      | (start) "\<not> isRowOperation (GetOperation (delta ! pos))"
          "isRangeStart (GetOperation (delta ! pos))" "pos + 1 < length delta"
      | (other) "\<not> isRowOperation (GetOperation (delta ! pos))"
          "\<not> (isRangeStart (GetOperation (delta ! pos)) \<and> pos + 1 < length delta)"
      by blast
    then show ?thesis
    proof cases
      case row
      from res True row have
        "fst (andThen (processRow r sess log timestamp (delta ! pos))
               (\<lambda>r' log'. consumeFrom r' sess log' timestamp delta (pos + 1))) = Some f"
        by (subst (asm) consumeFrom_unfold) simp
      from andThen_fst [OF this] show ?thesis
      proof
        assume "fst (processRow r sess log timestamp (delta ! pos)) = Some f"
        from processRow_fault [OF this] ok show ?thesis
          by (auto dest: buildFault_kind)
      next
        assume a: "fst (processRow r sess log timestamp (delta ! pos)) = None \<and>
          fst (consumeFrom (fst (snd (processRow r sess log timestamp (delta ! pos)))) sess
                 (snd (snd (processRow r sess log timestamp (delta ! pos)))) timestamp delta
                 (pos + 1)) = Some f"
        show ?thesis
          by (rule less.hyps [OF _ ok conjunct2 [OF a]]) (use True in simp)
      qed
    next
      case start
      from res True start have
        "fst (andThen (processRangeDelete r sess log timestamp (delta ! pos) (delta ! (pos + 1)))
               (\<lambda>r' log'. consumeFrom r' sess log' timestamp delta (pos + 2))) = Some f"
        by (subst (asm) consumeFrom_unfold) simp
      from andThen_fst [OF this] show ?thesis
      proof
        assume "fst (processRangeDelete r sess log timestamp (delta ! pos) (delta ! (pos + 1))) =
                Some f"
        from processRangeDelete_fault [OF this] ok show ?thesis
          by auto
      next
        assume a: "fst (processRangeDelete r sess log timestamp (delta ! pos) (delta ! (pos + 1))) =
                   None \<and>
          fst (consumeFrom
                 (fst (snd (processRangeDelete r sess log timestamp (delta ! pos)
                              (delta ! (pos + 1))))) sess
                 (snd (snd (processRangeDelete r sess log timestamp (delta ! pos)
                              (delta ! (pos + 1))))) timestamp delta
                 (pos + 2)) = Some f"
        show ?thesis
          by (rule less.hyps [OF _ ok conjunct2 [OF a]]) (use True in simp)
      qed
    next
      case other
      with res True show ?thesis
        by (subst (asm) consumeFrom_unfold) (auto split: if_splits)
    qed
  qed
qed

lemma andThen_assoc:
  "andThen (andThen res f) g = andThen res (\<lambda>x l. andThen (f x l) g)"
  by (cases res) (simp add: andThen_def)

lemma andThen_fault: "andThen (Some f, x, l) k = (Some f, x, l)"
  by (simp add: andThen_def)

lemma andThen_ok: "andThen (None, x, l) k = k x l"
  by (simp add: andThen_def)

lemma consumeFrom_prefix:
  "pos \<le> j \<Longrightarrow> j \<le> length delta \<Longrightarrow>
   j = 0 \<or> \<not> isRangeStart (GetOperation (delta ! (j - 1))) \<Longrightarrow>
   consumeFrom r sess log timestamp delta pos =
   andThen (consumeFrom r sess log timestamp (take j delta) pos)
     (\<lambda>r' log'. consumeFrom r' sess log' timestamp delta j)"
proof (induction "j - pos" arbitrary: pos r log rule: less_induct)
  case less
  note le = less.prems(1) and j = less.prems(2) and aligned = less.prems(3)
  have len: "length (take j delta) = j"
    using j by simp
  show ?case
  proof (cases "pos = j")
    case True
    have "consumeFrom r sess log timestamp (take j delta) j = (None, r, log)"
      by (subst consumeFrom_unfold) (simp add: len)
    with True show ?thesis
      by (simp add: andThen_ok)
  next
    case False
    with le have lt: "pos < j" by simp
    then have ltd: "pos < length delta" using j by simp
    have nth: "take j delta ! pos = delta ! pos"
      using lt by simp
    consider (row) "isRowOperation (GetOperation (delta ! pos))"
      | (start) "\<not> isRowOperation (GetOperation (delta ! pos))"
          "isRangeStart (GetOperation (delta ! pos))"
      | (other) "\<not> isRowOperation (GetOperation (delta ! pos))"
          "\<not> isRangeStart (GetOperation (delta ! pos))"
      by blast
    then show ?thesis
    proof cases
      case row
      have ih: "consumeFrom x sess l timestamp delta (pos + 1) =
                andThen (consumeFrom x sess l timestamp (take j delta) (pos + 1))
                  (\<lambda>r' log'. consumeFrom r' sess log' timestamp delta j)" for x l
        by (rule less.hyps [OF _ _ j aligned]) (use lt in simp_all)
      have L: "consumeFrom r sess log timestamp delta pos =
               andThen (processRow r sess log timestamp (delta ! pos))
                 (\<lambda>r' log'. consumeFrom r' sess log' timestamp delta (pos + 1))"
        by (subst consumeFrom_unfold) (simp add: ltd row)
      have R: "consumeFrom r sess log timestamp (take j delta) pos =
               andThen (processRow r sess log timestamp (delta ! pos))
                 (\<lambda>r' log'. consumeFrom r' sess log' timestamp (take j delta) (pos + 1))"
        by (subst consumeFrom_unfold) (simp add: len lt ltd nth row)
      show ?thesis
        by (simp only: L R andThen_assoc ih [symmetric])
    next
      case start
      have "pos \<noteq> j - 1"
        using start(2) aligned lt by auto
      with lt have lt1: "Suc pos < j" by simp
      then have lt1d: "Suc pos < length delta" using j by simp
      have nth1: "take j delta ! Suc pos = delta ! Suc pos"
        using lt1 by simp
      have ih: "consumeFrom x sess l timestamp delta (pos + 2) =
                andThen (consumeFrom x sess l timestamp (take j delta) (pos + 2))
                  (\<lambda>r' log'. consumeFrom r' sess log' timestamp delta j)" for x l
        by (rule less.hyps [OF _ _ j aligned]) (use lt1 in simp_all)
      have L: "consumeFrom r sess log timestamp delta pos =
               andThen (processRangeDelete r sess log timestamp (delta ! pos) (delta ! (pos + 1)))
                 (\<lambda>r' log'. consumeFrom r' sess log' timestamp delta (pos + 2))"
        by (subst consumeFrom_unfold) (simp add: ltd lt1d start)
      have R: "consumeFrom r sess log timestamp (take j delta) pos =
               andThen (processRangeDelete r sess log timestamp (delta ! pos) (delta ! (pos + 1)))
                 (\<lambda>r' log'. consumeFrom r' sess log' timestamp (take j delta) (pos + 2))"
        by (subst consumeFrom_unfold) (simp add: len lt ltd lt1 lt1d nth nth1 start)
      show ?thesis
        by (simp only: L R andThen_assoc ih [symmetric])
    next
      case other
      have L: "consumeFrom r sess log timestamp delta pos =
               (Some (Panic (UnsupportedOperation (GetOperation (delta ! pos)))), r, log)"
        by (subst consumeFrom_unfold) (simp add: ltd other)
      have R: "consumeFrom r sess log timestamp (take j delta) pos =
               (Some (Panic (UnsupportedOperation (GetOperation (delta ! pos)))), r, log)"
        by (subst consumeFrom_unfold) (simp add: len lt ltd nth other)
      show ?thesis
        by (simp only: L R andThen_fault)
    qed
  qed
qed

lemma unrecognized_aligned:
  assumes "startsPaired delta" and "j < length delta" and "\<not> recognizedAt delta j"
  shows "j = 0 \<or> \<not> isRangeStart (GetOperation (delta ! (j - 1)))"
proof (cases "j = 0")
  case True
  then show ?thesis by simp
next
  case False
  show ?thesis
  proof (rule disjI2, rule notI)
    assume s: "isRangeStart (GetOperation (delta ! (j - 1)))"
    have "j - 1 < length delta" using assms(2) by simp
    from startsPaired_nth [OF assms(1) this s] False
    have "isRangeEnd (GetOperation (delta ! j))" by simp
    with s False assms(3) show False
      by (simp add: recognizedAt_def)
  qed
qed

lemma consumeFrom_at_unrecognized:
  assumes "j < length delta" and "\<not> recognizedAt delta j"
  shows "consumeFrom r sess log timestamp delta j =
         (Some (Panic (UnsupportedOperation (GetOperation (delta ! j)))), r, log)"
  using assms by (subst consumeFrom_unfold) (simp add: recognizedAt_def)

lemma Consume_unrecognized:
  assumes "startsPaired delta" and "j < length delta" and "\<not> recognizedAt delta j"
  shows "Consume r sess log \<lparr>CassandraTimestamp = timestamp, Delta = delta\<rparr> =
         (case Consume r sess log \<lparr>CassandraTimestamp = timestamp, Delta = take j delta\<rparr> of
            (err, r', log') \<Rightarrow>
              if err \<noteq> None then (err, r', log')
              else (Some (Panic (UnsupportedOperation (GetOperation (delta ! j)))), r', log'))"
proof -
  have "consumeFrom r sess log timestamp delta 0 =
        andThen (consumeFrom r sess log timestamp (take j delta) 0)
          (\<lambda>r' log'. consumeFrom r' sess log' timestamp delta j)"
    by (rule consumeFrom_prefix [OF _ _ unrecognized_aligned [OF assms]]) (use assms(2) in simp_all)
  then show ?thesis
    by (simp add: Consume_def andThen_def consumeFrom_at_unrecognized [OF assms(2,3)])
qed

text \<open>
  Claim C8, amended. When every RangeDeleteStart event of the delta is immediately
  followed by a RangeDeleteEnd event, and the event at position \<open>j\<close> has an operation
  kind that is none of Insert, Update, RowDelete, PartitionDelete, RangeDeleteStart and
  is not a RangeDeleteEnd right after a start, then \<open>Consume\<close> processes the events
  before \<open>j\<close> as it does for the delta cut off at \<open>j\<close>; if one of them fails it
  stops there with that fault, and otherwise it stops at the event with the
  unsupported-operation panic for the event's kind, with the translator and the executed
  actions of the events before it: the event is not skipped and no later event is
  processed. So \<open>Consume\<close> does not return success; with a session whose statements
  all succeed the fault is a panic, and when the first event is the unrecognised one
  nothing is executed.
\<close>

theorem unrecognized_operation_halts:
  assumes "startsPaired delta" and "j < length delta" and "\<not> recognizedAt delta j"
  shows "Consume r sess log \<lparr>CassandraTimestamp = timestamp, Delta = delta\<rparr> =
           (case Consume r sess log \<lparr>CassandraTimestamp = timestamp, Delta = take j delta\<rparr> of
              (err, r', log') \<Rightarrow>
                if err \<noteq> None then (err, r', log')
                else (Some (Panic (UnsupportedOperation (GetOperation (delta ! j)))),
                      r', log')) \<and>
         fst (Consume r sess log \<lparr>CassandraTimestamp = timestamp, Delta = delta\<rparr>) \<noteq> None \<and>
         ((\<forall>l a. sess l a = None) \<longrightarrow>
            (\<exists>p. fst (Consume r sess log \<lparr>CassandraTimestamp = timestamp, Delta = delta\<rparr>) =
                  Some (Panic p))) \<and>
         (j = 0 \<longrightarrow>
            Consume r sess log \<lparr>CassandraTimestamp = timestamp, Delta = delta\<rparr> =
              (Some (Panic (UnsupportedOperation (GetOperation (delta ! 0)))), r, log))"
proof (intro conjI impI)
  show "Consume r sess log \<lparr>CassandraTimestamp = timestamp, Delta = delta\<rparr> =
           (case Consume r sess log \<lparr>CassandraTimestamp = timestamp, Delta = take j delta\<rparr> of
              (err, r', log') \<Rightarrow>
                if err \<noteq> None then (err, r', log')
                else (Some (Panic (UnsupportedOperation (GetOperation (delta ! j)))),
                      r', log'))"
    by (rule Consume_unrecognized [OF assms])
  show halt: "fst (Consume r sess log \<lparr>CassandraTimestamp = timestamp, Delta = delta\<rparr>) \<noteq> None"
    using consumeFrom_unrecognized [OF assms, of 0 r sess log timestamp]
    by (simp add: Consume_def)
  {
    assume ok: "\<forall>l a. sess l a = None"
    from halt obtain f where
      f: "fst (Consume r sess log \<lparr>CassandraTimestamp = timestamp, Delta = delta\<rparr>) = Some f"
      by blast
    then have "isPanic f"
      using consumeFrom_ok_session_panics [OF ok, of r log timestamp delta 0 f]
      by (simp add: Consume_def)
    then obtain p where "f = Panic p"
      by (cases f) simp_all
    with f show "\<exists>p. fst (Consume r sess log \<lparr>CassandraTimestamp = timestamp, Delta = delta\<rparr>) =
                  Some (Panic p)"
      by simp
  }
  {
    assume "j = 0"
    with assms have "0 < length delta" "\<not> isRowOperation (GetOperation (delta ! 0))"
      "\<not> isRangeStart (GetOperation (delta ! 0))"
      by (simp_all add: recognizedAt_def)
    then show "Consume r sess log \<lparr>CassandraTimestamp = timestamp, Delta = delta\<rparr> =
              (Some (Panic (UnsupportedOperation (GetOperation (delta ! 0)))), r, log)"
      unfolding Consume_def by (subst consumeFrom_unfold) simp
  }
qed

theorem unrecognized_operation_halts_witness:
  "startsPaired [exampleValDelete, postImageRow, exampleInsert] \<and>
   (1::nat) < length [exampleValDelete, postImageRow, exampleInsert] \<and>
   \<not> recognizedAt [exampleValDelete, postImageRow, exampleInsert] 1 \<and>
   Consume exampleReplicator okSession []
     \<lparr>CassandraTimestamp = 1000, Delta = [exampleValDelete, postImageRow, exampleInsert]\<rparr> =
   (Some (Panic (UnsupportedOperation PostImage)), exampleReplicator,
    [ExecuteBatch [(''DELETE val FROM ks.t WHERE id = ? AND seq = ?'', [IntV 1, IntV 1])]
       ConsistencyOne 1000])"
proof -
  have h: "startsPaired [exampleValDelete, postImageRow, exampleInsert]"
    "(1::nat) < length [exampleValDelete, postImageRow, exampleInsert]"
    "\<not> recognizedAt [exampleValDelete, postImageRow, exampleInsert] 1"
    by (simp_all add: exampleValDelete_def postImageRow_def exampleInsert_def keyRow_def
        GetOperation_def recognizedAt_def isRowOperation_def isRangeStart_def isRangeEnd_def
        op_defs)
  have op: "GetOperation exampleValDelete = (if False then Insert else Update)"
    by (simp add: exampleValDelete_def keyRow_def GetOperation_def)
  have c: "consistency exampleReplicator = ConsistencyOne"
    by (simp add: exampleReplicator_def)
  have pre: "Consume exampleReplicator okSession []
     \<lparr>CassandraTimestamp = 1000, Delta = [exampleValDelete]\<rparr> =
     (None, exampleReplicator,
      [ExecuteBatch [(''DELETE val FROM ks.t WHERE id = ? AND seq = ?'', [IntV 1, IntV 1])]
         ConsistencyOne 1000])"
    using processInsertOrUpdate_built [OF example_val_delete_batch, of okSession "[]" 1000]
    by (simp only: Consume_single_insert_update [OF op] c)
       (simp add: execute_def okSession_def)
  have g: "GetOperation postImageRow = PostImage"
    by (simp add: postImageRow_def keyRow_def GetOperation_def)
  from unrecognized_operation_halts [OF h, of exampleReplicator okSession "[]" 1000] h
  show ?thesis
    by (simp add: pre g)
qed

text \<open>
  Claim C8 as stated fails for an unrecognised event right after a RangeDeleteStart:
  \<open>Consume\<close> takes it as the end event without looking at its kind, executes the
  range delete and returns success.
\<close>

theorem unrecognized_operation_halts_counterexample:
  "\<not> recognizedAt [exampleRangeStart, postImageRow] 1 \<and>
   Consume exampleReplicator okSession []
     \<lparr>CassandraTimestamp = 1000, Delta = [exampleRangeStart, postImageRow]\<rparr> =
   (None, exampleReplicator,
    [ExecQuery ''DELETE FROM ks.t WHERE id = ? AND seq >= ?'' [IntV 1, IntV 5]
       ConsistencyOne 1000])"
proof -
  have s: "isRangeStart (GetOperation exampleRangeStart)"
    "\<not> isRowOperation (GetOperation exampleRangeStart)"
    by (simp_all add: exampleRangeStart_def keyRow_simps isRangeStart_def isRowOperation_def
        op_defs)
  have e: "data postImageRow ''seq'' = None"
    by (simp add: postImageRow_def keyRow_simps)
  have u: "\<not> recognizedAt [exampleRangeStart, postImageRow] 1"
    by (simp add: postImageRow_def keyRow_simps recognizedAt_def isRowOperation_def
        isRangeStart_def isRangeEnd_def op_defs)
  have "Consume exampleReplicator okSession []
     \<lparr>CassandraTimestamp = 1000, Delta = [exampleRangeStart, postImageRow]\<rparr> =
   (None, exampleReplicator,
    [ExecQuery ''DELETE FROM ks.t WHERE id = ? AND seq >= ?'' [IntV 1, IntV 5]
       ConsistencyOne 1000])"
    unfolding Consume_def
    by (subst consumeFrom_unfold, subst consumeFrom_unfold)
       (simp add: s andThen_def example_range_delete [OF e])
  with u show ?thesis by simp
qed

lemma wide_key_construction:
  "NewDeltaReplicator wideKeyMeta ConsistencyOne 1 = Inr wideKeyReplicator"
  by (simp add: NewDeltaReplicator_def wideKeyMeta_def wideKeyReplicator_def
      computeRowDeleteQuery_def computePartitionDeleteQuery_def computeRangeDeleteQueries_def
      makeBindMarkerAssignments_def columnType_def makeBindMarkerForType_def elems_def
      rangeDeleteQuery_def upt_rec [of _ 8] Let_def)

lemma wide_key_update_batch:
  "buildBatch wideKeyReplicator timestamp False wideKeyUpdate =
     (wideKeyReplicator\<lparr>pkColumns := \<lparr>arr = [''a'', ''b'', ''c'', ''seq''], len = 3\<rparr>\<rparr>,
      Inr [(''DELETE val FROM ks.w WHERE a = ? AND b = ? AND c = ? AND seq = ?'',
            [IntV 1, IntV 2, IntV 3, IntV 4])])"
  by (simp add: buildBatch_def go_append_def elems_def wideKeyReplicator_def wideKeyMeta_def
      insertMarkerQueries_def makeBindMarkerAssignments_def columnType_def
      makeBindMarkerForType_def columnQueries_def scalarColumnQueries_def
      appendValueByType_def GetValue_def GetTTL_def keyRow_def noScalarChange_def Let_def
      wideKeyUpdate_def)

text \<open>
  Claim C9. The claim does not hold of the memory behind the partition-key slice.
  \<open>processInsertOrUpdate\<close> computes its key columns with
  \<open>append(r.pkColumns, r.ckColumns...)\<close>, which writes the clustering-column names
  into the backing array of \<open>r.pkColumns\<close> when that has spare capacity;
  \<open>computeRowDeleteQuery\<close> and \<open>NewDeltaReplicator\<close> build the same list by
  appending to a fresh slice. On the translator of table \<open>ks.w\<close>, as constructed,
  \<open>Consume\<close> of a change with one Update event returns a translator that differs
  from the one it was called on: the slot behind \<open>a, b, c\<close> now holds \<open>seq\<close>.
\<close>

theorem translator_backing_array_written:
  "NewDeltaReplicator wideKeyMeta ConsistencyOne 1 = Inr wideKeyReplicator \<and>
   pkColumns wideKeyReplicator = \<lparr>arr = [''a'', ''b'', ''c'', []], len = 3\<rparr> \<and>
   Consume wideKeyReplicator okSession []
     \<lparr>CassandraTimestamp = 1000, Delta = [wideKeyUpdate]\<rparr> =
     (None,
      wideKeyReplicator\<lparr>pkColumns := \<lparr>arr = [''a'', ''b'', ''c'', ''seq''], len = 3\<rparr>\<rparr>,
      [ExecuteBatch
         [(''DELETE val FROM ks.w WHERE a = ? AND b = ? AND c = ? AND seq = ?'',
           [IntV 1, IntV 2, IntV 3, IntV 4])]
         ConsistencyOne 1000]) \<and>
   fst (snd (Consume wideKeyReplicator okSession []
               \<lparr>CassandraTimestamp = 1000, Delta = [wideKeyUpdate]\<rparr>)) \<noteq> wideKeyReplicator"
proof -
  have op: "GetOperation wideKeyUpdate = (if False then Insert else Update)"
    by (simp add: wideKeyUpdate_def keyRow_def GetOperation_def)
  have c: "consistency wideKeyReplicator = ConsistencyOne"
    by (simp add: wideKeyReplicator_def)
  have run: "Consume wideKeyReplicator okSession []
     \<lparr>CassandraTimestamp = 1000, Delta = [wideKeyUpdate]\<rparr> =
     (None,
      wideKeyReplicator\<lparr>pkColumns := \<lparr>arr = [''a'', ''b'', ''c'', ''seq''], len = 3\<rparr>\<rparr>,
      [ExecuteBatch
         [(''DELETE val FROM ks.w WHERE a = ? AND b = ? AND c = ? AND seq = ?'',
           [IntV 1, IntV 2, IntV 3, IntV 4])]
         ConsistencyOne 1000])"
    using processInsertOrUpdate_built [OF wide_key_update_batch, of okSession "[]" 1000]
    by (simp only: Consume_single_insert_update [OF op] c)
       (simp add: execute_def okSession_def)
  have p: "pkColumns wideKeyReplicator = \<lparr>arr = [''a'', ''b'', ''c'', []], len = 3\<rparr>"
    by (simp add: wideKeyReplicator_def)
  have ne: "wideKeyReplicator\<lparr>pkColumns := \<lparr>arr = [''a'', ''b'', ''c'', ''seq''], len = 3\<rparr>\<rparr> \<noteq>
            wideKeyReplicator"
  proof
    assume "wideKeyReplicator\<lparr>pkColumns := \<lparr>arr = [''a'', ''b'', ''c'', ''seq''], len = 3\<rparr>\<rparr> =
            wideKeyReplicator"
    then have "pkColumns (wideKeyReplicator\<lparr>pkColumns := \<lparr>arr = [''a'', ''b'', ''c'', ''seq''], len = 3\<rparr>\<rparr>) =
               pkColumns wideKeyReplicator"
      by (rule arg_cong)
    then show False
      by (simp add: p)
  qed
  show ?thesis
    unfolding run using wide_key_construction p ne by simp
qed

end
